theory Spec2Isabelle
  imports Main "HOL-Library.AList"
begin

section \<open>Cmdly: tokens (core/core_types/tokens.py)\<close>

text \<open>
  The interpreter pipeline of Cmdly: \<^verbatim>\<open>Tokenizer.tokenize\<close> (core/tokenizer.py),
  \<^verbatim>\<open>Parser\<close> (core/parser.py) and \<^verbatim>\<open>Executor\<close> (core/executor.py).

  Python's \<^verbatim>\<open>str\<close> is modelled as \<^typ>\<open>string\<close>, one \<^typ>\<open>char\<close> per code point;
  the model therefore covers the code points 0 to 255, with the character classes of
  Python's \<^verbatim>\<open>re\<close> module on that range.
\<close>

datatype TokType = COMMAND | STRING | FLAG | AND | OR | SEMI | EOF | WHITESPACE | MISMATCH

datatype Token = Token (ttype: TokType) (tvalue: string)

text \<open>
  The two \<^verbatim>\<open>SyntaxError\<close>s of the pipeline, kept structured:
  \<^verbatim>\<open>f"Unexpected character: {group!r} at position {pos}"\<close> (tokenizer) and
  \<^verbatim>\<open>f"Expected command, got {self.current.type}"\<close> (parser).
\<close>

datatype SyntaxError = UnexpectedCharacter string nat | ExpectedCommand TokType

section \<open>The tokenizer (core/tokenizer.py)\<close>

subsection \<open>Character classes\<close>

text \<open>\<^verbatim>\<open>\s\<close> on a \<^verbatim>\<open>str\<close> pattern: the Unicode white space below code point 256.\<close>

definition is_space :: "char \<Rightarrow> bool" where
  "is_space c =
     (let n = (of_char c :: nat)
      in (9 \<le> n \<and> n \<le> 13) \<or> (28 \<le> n \<and> n \<le> 32) \<or> n = 133 \<or> n = 160)"

text \<open>\<^verbatim>\<open>\w\<close> on a \<^verbatim>\<open>str\<close> pattern: the Unicode alphanumerics below code point 256
  and the underscore.\<close>

definition is_word :: "char \<Rightarrow> bool" where
  "is_word c =
     (let n = (of_char c :: nat)
      in (48 \<le> n \<and> n \<le> 57) \<or> (65 \<le> n \<and> n \<le> 90) \<or> n = 95 \<or> (97 \<le> n \<and> n \<le> 122)
         \<or> n = 170 \<or> n = 178 \<or> n = 179 \<or> n = 181 \<or> n = 185 \<or> n = 186
         \<or> (188 \<le> n \<and> n \<le> 190) \<or> (192 \<le> n \<and> n \<le> 214)
         \<or> (216 \<le> n \<and> n \<le> 246) \<or> (248 \<le> n \<and> n \<le> 255))"

text \<open>The class \<^verbatim>\<open>[a-zA-Z0-9_-]\<close>.\<close>

definition is_command_char :: "char \<Rightarrow> bool" where
  "is_command_char c =
     (let n = (of_char c :: nat)
      in (97 \<le> n \<and> n \<le> 122) \<or> (65 \<le> n \<and> n \<le> 90) \<or> (48 \<le> n \<and> n \<le> 57)
         \<or> c = CHR ''_'' \<or> c = CHR ''-'')"

subsection \<open>The patterns\<close>

text \<open>
  Each pattern is a function from the text at the scan position to the matched group, if
  the pattern matches there (\<^verbatim>\<open>master_pattern.match(text, pos)\<close> anchors at \<open>pos\<close>, and
  no pattern looks behind it).

  \<^verbatim>\<open>X+\<close> for a character class \<open>X\<close>: the longest non-empty run.
\<close>

definition re_plus :: "(char \<Rightarrow> bool) \<Rightarrow> string \<Rightarrow> string option" where
  "re_plus P s = (let g = takeWhile P s in if g = [] then None else Some g)"

text \<open>A literal: \<^verbatim>\<open>&&\<close>, \<^verbatim>\<open>\|\|\<close>, \<^verbatim>\<open>;\<close>.\<close>

definition re_literal :: "string \<Rightarrow> string \<Rightarrow> string option" where
  "re_literal lit s = (if take (length lit) s = lit then Some lit else None)"

text \<open>
  \<^verbatim>\<open>--?\w+\<close>: a dash, greedily a second dash, then word characters. When the second
  dash is taken and no word character follows, the matcher backtracks to one dash (and
  then fails, a dash being no word character: the last two branches keep the regex's order).
\<close>

definition re_flag :: "string \<Rightarrow> string option" where
  "re_flag s =
     (case s of
        [] \<Rightarrow> None
      | c # r \<Rightarrow>
          if c \<noteq> CHR ''-'' then None
          else (case r of
                  [] \<Rightarrow> None
                | d # r2 \<Rightarrow>
                    if d = CHR ''-'' \<and> takeWhile is_word r2 \<noteq> []
                    then Some (c # d # takeWhile is_word r2)
                    else if takeWhile is_word r \<noteq> [] then Some (c # takeWhile is_word r)
                    else None))"

text \<open>
  The part of a quoted string after the opening quote \<open>q\<close>, up to and with the closing
  one: \<^verbatim>\<open>[^q\\]*(\\.[^q\\]*)*q\<close>. A backslash takes the next character with it, unless
  that is a newline (\<^verbatim>\<open>.\<close> does not match \<^verbatim>\<open>\n\<close>) or the text ends.
\<close>

fun quoted_body :: "char \<Rightarrow> string \<Rightarrow> string option" where
  "quoted_body q [] = None"
| "quoted_body q [c] = (if c = q then Some [c] else None)"
| "quoted_body q (c # d # s) =
     (if c = q then Some [c]
      else if c = CHR 0x5C then
        (if d = CHR 0x0A then None else map_option (\<lambda>g. c # d # g) (quoted_body q s))
      else map_option (\<lambda>g. c # g) (quoted_body q (d # s)))"

definition re_quoted :: "char \<Rightarrow> string \<Rightarrow> string option" where
  "re_quoted q s =
     (case s of
        [] \<Rightarrow> None
      | c # r \<Rightarrow> if c = q then map_option (\<lambda>g. c # g) (quoted_body q r) else None)"

text \<open>\<^verbatim>\<open>.\<close>: any one character but the newline.\<close>

definition re_dot :: "string \<Rightarrow> string option" where
  "re_dot s = (case s of [] \<Rightarrow> None | c # r \<Rightarrow> if c = CHR 0x0A then None else Some [c])"

text \<open>\<^verbatim>\<open>self.patterns\<close>, in the order of \<^verbatim>\<open>Tokenizer.__init__\<close>.\<close>

definition patterns :: "(TokType \<times> (string \<Rightarrow> string option)) list" where
  "patterns =
     [(WHITESPACE, re_plus is_space),
      (AND, re_literal ''&&''),
      (OR, re_literal ''||''),
      (SEMI, re_literal '';''),
      (FLAG, re_flag),
      (STRING, re_quoted (CHR 0x22)),
      (STRING, re_quoted (CHR 0x27)),
      (COMMAND, re_plus is_command_char),
      (MISMATCH, re_dot)]"

text \<open>
  The master pattern is the alternation of the patterns, each a named group: the first
  alternative that matches at the position wins, and the loop over
  \<^verbatim>\<open>enumerate(self.patterns)\<close> finds its group, the only one that is not \<^verbatim>\<open>None\<close>.
\<close>

fun first_match ::
  "(TokType \<times> (string \<Rightarrow> string option)) list \<Rightarrow> string \<Rightarrow> (TokType \<times> string) option" where
  "first_match [] s = None"
| "first_match ((tok_type, pattern) # ps) s =
     (case pattern s of Some grp \<Rightarrow> Some (tok_type, grp) | None \<Rightarrow> first_match ps s)"

definition master_pattern_match :: "string \<Rightarrow> (TokType \<times> string) option" where
  "master_pattern_match s = first_match patterns s"

lemma first_match_nonempty:
  "first_match ps s = Some (t, g) \<Longrightarrow>
   \<forall>(t', p) \<in> set ps. \<forall>g'. p s = Some g' \<longrightarrow> g' \<noteq> [] \<Longrightarrow> g \<noteq> []"
  by (induction ps s rule: first_match.induct) (auto split: option.splits)

lemma master_pattern_match_nonempty:
  "master_pattern_match s = Some (t, g) \<Longrightarrow> g \<noteq> []"
  unfolding master_pattern_match_def
  by (erule first_match_nonempty)
     (auto simp: patterns_def re_plus_def re_literal_def re_flag_def re_quoted_def re_dot_def Let_def
           split: list.splits if_splits)

subsection \<open>The scan loop\<close>

text \<open>
  \<^verbatim>\<open>Tokenizer.tokenize\<close> is a generator: it yields tokens and either ends after the
  \<^verbatim>\<open>EOF\<close> token or raises. The model returns the tokens yielded, in order, and the
  error raised, if any. \<open>tokenize_from pos s\<close> is the loop at position \<open>pos\<close>, where
  \<open>s\<close> is \<^verbatim>\<open>text[pos:]\<close>; \<^verbatim>\<open>match.end()\<close> is \<open>pos + length grp\<close>.
\<close>

text \<open>The value of the token yielded for a group: \<^verbatim>\<open>group[1:-1]\<close> for a string.\<close>

definition token_value :: "TokType \<Rightarrow> string \<Rightarrow> string" where
  "token_value tok_type grp = (if tok_type = STRING then butlast (tl grp) else grp)"

function tokenize_from :: "nat \<Rightarrow> string \<Rightarrow> Token list \<times> SyntaxError option" where
  "tokenize_from pos s =
     (if s = [] then ([Token EOF []], None)
      else case master_pattern_match s of
             None \<Rightarrow> ([], Some (UnexpectedCharacter [hd s] pos))
           | Some (tok_type, grp) \<Rightarrow>
               if tok_type = WHITESPACE
               then tokenize_from (pos + length grp) (drop (length grp) s)
               else if tok_type = MISMATCH then ([], Some (UnexpectedCharacter grp pos))
               else (case tokenize_from (pos + length grp) (drop (length grp) s) of
                       (toks, err) \<Rightarrow> (Token tok_type (token_value tok_type grp) # toks, err)))"
  by pat_completeness auto
termination
  by (relation "measure (\<lambda>(pos, s). length s)") (auto dest: master_pattern_match_nonempty)

declare tokenize_from.simps [simp del]

definition tokenize :: "string \<Rightarrow> Token list \<times> SyntaxError option" where
  "tokenize text = tokenize_from 0 text"

section \<open>The parser (core/parser.py)\<close>

text \<open>
  A named argument's value is a string or \<^verbatim>\<open>True\<close>. The \<^verbatim>\<open>kwargs\<close> dict is an
  association list in insertion order: \<^const>\<open>AList.update\<close> overwrites a key in place
  and appends a new one, as \<^verbatim>\<open>kwargs[k] = v\<close> does.
\<close>

datatype argval = Str string | PyTrue

type_synonym kwargs_dict = "(string \<times> argval) list"

text \<open>The parser's state: the deque of tokens and the current token.\<close>

record Parser =
  tokens :: "Token list"
  current :: Token

definition next_token :: "Parser \<Rightarrow> Parser" where
  "next_token self =
     (case tokens self of
        [] \<Rightarrow> self\<lparr>current := Token EOF []\<rparr>
      | t # ts \<Rightarrow> self\<lparr>tokens := ts, current := t\<rparr>)"

text \<open>\<^verbatim>\<open>Parser.__init__\<close>: \<^verbatim>\<open>self.current = None\<close> is overwritten at once by
  \<^verbatim>\<open>self.next_token()\<close>, so the placeholder is never read.\<close>

definition Parser_init :: "Token list \<Rightarrow> Parser" where
  "Parser_init toks = next_token \<lparr>tokens = toks, current = Token EOF []\<rparr>"

text \<open>\<^verbatim>\<open>s.lstrip(ch)\<close> and \<^verbatim>\<open>s.split(sep, 1)\<close> for an \<open>s\<close> that contains \<open>sep\<close>.\<close>

definition lstrip :: "char \<Rightarrow> string \<Rightarrow> string" where
  "lstrip ch s = dropWhile (\<lambda>c. c = ch) s"

definition split_once :: "char \<Rightarrow> string \<Rightarrow> string \<times> string" where
  "split_once sep s = (takeWhile (\<lambda>c. c \<noteq> sep) s, tl (dropWhile (\<lambda>c. c \<noteq> sep) s))"

text \<open>
  A chain is a dict with the keys \<^verbatim>\<open>"type"\<close>, \<^verbatim>\<open>"cmd"\<close>, \<^verbatim>\<open>"args"\<close> and
  \<^verbatim>\<open>"kwargs"\<close>; the executor reads each with \<^verbatim>\<open>.get\<close>, so each may be absent.
\<close>

record chain =
  chain_type :: "string option"
  chain_cmd :: "string option"
  chain_args :: "string list option"
  chain_kwargs :: "kwargs_dict option"

text \<open>What is left to read: the deque, and the current token unless it is \<^verbatim>\<open>EOF\<close>.\<close>

definition remaining :: "Parser \<Rightarrow> nat" where
  "remaining self = length (tokens self) + (if ttype (current self) = EOF then 0 else 1)"

lemma remaining_next_token_le: "remaining (next_token self) \<le> remaining self"
  by (simp add: remaining_def next_token_def split: list.splits)

lemma remaining_next_token_less:
  "ttype (current self) \<noteq> EOF \<Longrightarrow> remaining (next_token self) < remaining self"
  by (simp add: remaining_def next_token_def split: list.splits)

text \<open>
  The \<^verbatim>\<open>while\<close> loop of \<^verbatim>\<open>Parser.parse_command\<close>, with its two local
  computations named: \<^verbatim>\<open>flag = self.current.value.lstrip("-")\<close>, and
  \<^verbatim>\<open>k, v = s.split("=", 1); kwargs[k] = v\<close>.
\<close>

definition flag_name :: "Token \<Rightarrow> string" where
  "flag_name t = lstrip (CHR ''-'') (tvalue t)"

definition set_key_value :: "string \<Rightarrow> kwargs_dict \<Rightarrow> kwargs_dict" where
  "set_key_value s kwargs = (case split_once (CHR ''='') s of (k, v) \<Rightarrow> AList.update k (Str v) kwargs)"

function parse_arguments ::
  "Parser \<Rightarrow> string list \<Rightarrow> kwargs_dict \<Rightarrow> Parser \<times> string list \<times> kwargs_dict" where
  "parse_arguments self args kwargs =
     (if ttype (current self) \<in> {AND, OR, SEMI, EOF} then (self, args, kwargs)
      else if ttype (current self) = FLAG then
        (if CHR ''='' \<in> set (flag_name (current self)) then
           parse_arguments (next_token self) args (set_key_value (flag_name (current self)) kwargs)
         else if ttype (current (next_token self)) \<in> {COMMAND, STRING} then
           parse_arguments (next_token (next_token self)) args
             (AList.update (flag_name (current self)) (Str (tvalue (current (next_token self)))) kwargs)
         else
           parse_arguments (next_token self) args (AList.update (flag_name (current self)) PyTrue kwargs))
      else if ttype (current self) \<in> {COMMAND, STRING} then
        (if CHR ''='' \<in> set (tvalue (current self)) then
           parse_arguments (next_token self) args (set_key_value (tvalue (current self)) kwargs)
         else parse_arguments (next_token self) (args @ [tvalue (current self)]) kwargs)
      else (self, args, kwargs))"
  by pat_completeness auto
termination
proof (relation "measure (\<lambda>(self, args, kwargs). remaining self)", goal_cases)
  case 1
  show ?case by simp
next
  case (2 self args kwargs)
  then show ?case by (simp add: remaining_next_token_less)
next
  case (3 self args kwargs)
  then show ?case
    using remaining_next_token_le [of "next_token self"] remaining_next_token_less [of self]
    by simp
next
  case (4 self args kwargs)
  then show ?case by (simp add: remaining_next_token_less)
next
  case (5 self args kwargs)
  then show ?case by (simp add: remaining_next_token_less)
next
  case (6 self args kwargs)
  then show ?case by (simp add: remaining_next_token_less)
qed

declare parse_arguments.simps [simp del]

definition parse_command :: "Parser \<Rightarrow> SyntaxError + Parser \<times> chain" where
  "parse_command self =
     (if ttype (current self) \<noteq> COMMAND then Inl (ExpectedCommand (ttype (current self)))
      else (let cmd = tvalue (current self);
                (self', args, kwargs) = parse_arguments (next_token self) [] []
            in Inr (self', \<lparr>chain_type = None, chain_cmd = Some cmd,
                            chain_args = Some args, chain_kwargs = Some kwargs\<rparr>)))"

text \<open>\<^verbatim>\<open>{"type": "COMMAND", **self.parse_command()}\<close>.\<close>

definition parse_chain :: "Parser \<Rightarrow> SyntaxError + Parser \<times> chain" where
  "parse_chain self =
     (case parse_command self of
        Inl e \<Rightarrow> Inl e
      | Inr (self', d) \<Rightarrow> Inr (self', d\<lparr>chain_type := Some ''COMMAND''\<rparr>))"

lemma remaining_parse_arguments:
  "remaining (fst (parse_arguments self args kwargs)) \<le> remaining self"
proof (induction self args kwargs rule: parse_arguments.induct)
  case (1 self args kwargs)
  note le1 = remaining_next_token_le [of self]
  note le2 = remaining_next_token_le [of "next_token self"]
  show ?case
  proof (cases "ttype (current self) \<in> {AND, OR, SEMI, EOF}")
    case True
    then show ?thesis by (subst parse_arguments.simps) simp
  next
    case stop: False
    show ?thesis
    proof (cases "ttype (current self) = FLAG")
      case flag: True
      show ?thesis
      proof (cases "CHR ''='' \<in> set (flag_name (current self))")
        case True
        with stop flag "1.IH"(1) le1 show ?thesis
          by (subst parse_arguments.simps) auto
      next
        case noeq: False
        show ?thesis
        proof (cases "ttype (current (next_token self)) \<in> {COMMAND, STRING}")
          case True
          with stop flag noeq "1.IH"(2) le1 le2 show ?thesis
            by (subst parse_arguments.simps) auto
        next
          case False
          with stop flag noeq "1.IH"(3) le1 show ?thesis
            by (subst parse_arguments.simps) auto
        qed
      qed
    next
      case noflag: False
      show ?thesis
      proof (cases "ttype (current self) \<in> {COMMAND, STRING}")
        case arg: True
        show ?thesis
        proof (cases "CHR ''='' \<in> set (tvalue (current self))")
          case True
          with stop noflag arg "1.IH"(4) le1 show ?thesis
            by (subst parse_arguments.simps) auto
        next
          case False
          with stop noflag arg "1.IH"(5) le1 show ?thesis
            by (subst parse_arguments.simps) auto
        qed
      next
        case False
        with stop noflag show ?thesis by (subst parse_arguments.simps) simp
      qed
    qed
  qed
qed

lemma remaining_parse_chain:
  assumes "parse_chain self = Inr (self', c)"
  shows "remaining self' < remaining self"
proof -
  from assms have cmd: "ttype (current self) = COMMAND"
    and self': "self' = fst (parse_arguments (next_token self) [] [])"
    by (auto simp: parse_chain_def parse_command_def Let_def
             split: if_splits prod.splits sum.splits)
  from cmd have "remaining (next_token self) < remaining self"
    by (simp add: remaining_next_token_less)
  with remaining_parse_arguments [of "next_token self" "[]" "[]"] self'
  show ?thesis by simp
qed

text \<open>The \<^verbatim>\<open>while\<close> loop of \<^verbatim>\<open>Parser.parse\<close>; the separator's name is read and dropped.\<close>

function parse_loop :: "Parser \<Rightarrow> chain list \<Rightarrow> SyntaxError + chain list" where
  "parse_loop self chs =
     (if ttype (current self) = EOF then Inr chs
      else case parse_chain self of
             Inl e \<Rightarrow> Inl e
           | Inr (self', c) \<Rightarrow>
               if ttype (current self') \<in> {SEMI, AND, OR}
               then parse_loop (next_token self') (chs @ [c])
               else parse_loop self' (chs @ [c]))"
  by pat_completeness auto
termination
  by (relation "measure (\<lambda>(self, chs). remaining self)")
     (auto dest!: remaining_parse_chain intro: le_less_trans [OF remaining_next_token_le])

declare parse_loop.simps [simp del]

definition parse :: "Parser \<Rightarrow> SyntaxError + chain list" where
  "parse self = parse_loop self []"

text \<open>
  The line as \<^verbatim>\<open>CLI.run\<close> handles it: \<^verbatim>\<open>parser_cls(tokens)\<close> drains the generator
  into a deque, so an error of the tokenizer is raised there and the tokens yielded
  before it are lost; otherwise the token list is parsed.
\<close>

definition tokenize_and_parse :: "string \<Rightarrow> SyntaxError + chain list" where
  "tokenize_and_parse raw_input =
     (case tokenize raw_input of
        (toks, Some e) \<Rightarrow> Inl e
      | (toks, None) \<Rightarrow> parse (Parser_init toks))"

section \<open>The executor (core/executor.py)\<close>

subsection \<open>Python values, exceptions and plugins\<close>

text \<open>
  What a plugin's \<^verbatim>\<open>execute\<close> may return. The contract says \<^verbatim>\<open>int\<close>, Python does not
  enforce it: the model has integers, booleans, \<^verbatim>\<open>None\<close> and strings.
\<close>

datatype pyval = PyInt int | PyBool bool | PyNone | PyStr string

text \<open>\<^verbatim>\<open>result != 0\<close>: \<^verbatim>\<open>bool\<close> is a subclass of \<^verbatim>\<open>int\<close> (\<^verbatim>\<open>False == 0\<close>);
  \<^verbatim>\<open>None\<close> and strings are never equal to \<^verbatim>\<open>0\<close>.\<close>

fun ne_zero :: "pyval \<Rightarrow> bool" where
  "ne_zero (PyInt n) = (n \<noteq> 0)"
| "ne_zero (PyBool b) = b"
| "ne_zero PyNone = True"
| "ne_zero (PyStr s) = True"

text \<open>
  Exceptions. \<^verbatim>\<open>KeyboardInterrupt\<close> and \<^verbatim>\<open>SystemExit\<close> derive from
  \<^verbatim>\<open>BaseException\<close> only; every other one here derives from \<^verbatim>\<open>Exception\<close>, which is
  what \<^verbatim>\<open>except Exception\<close> catches.
\<close>

datatype exn =
    ModuleNotFoundError string
  | AttributeError string
  | TypeError string
  | OtherException string
  | KeyboardInterrupt
  | SystemExit

fun is_Exception :: "exn \<Rightarrow> bool" where
  "is_Exception KeyboardInterrupt = False"
| "is_Exception SystemExit = False"
| "is_Exception e = True"

text \<open>\<^verbatim>\<open>except (ModuleNotFoundError, AttributeError)\<close>.\<close>

fun is_load_error :: "exn \<Rightarrow> bool" where
  "is_load_error (ModuleNotFoundError m) = True"
| "is_load_error (AttributeError m) = True"
| "is_load_error e = False"

datatype outcome = Returned pyval | Raised exn

text \<open>
  A class found in a command module by \<^verbatim>\<open>inspect.getmembers(module, inspect.isclass)\<close>:
  whether it is a proper subclass of \<^verbatim>\<open>BaseCommand\<close>, its \<^verbatim>\<open>fun\<close> attribute if it
  has one, and what \<^verbatim>\<open>CommandClass().execute(*args, **kwargs)\<close> does. The plugin is
  opaque to the core: only the outcome of the call is modelled.
\<close>

record command_class =
  class_name :: string
  is_command :: bool
  fun_attr :: "bool option"
  execute :: "string list \<Rightarrow> kwargs_dict \<Rightarrow> outcome"

text \<open>\<^verbatim>\<open>importlib.import_module\<close> returns a module, here its classes in the order of
  \<^verbatim>\<open>getmembers\<close>, or raises.\<close>

datatype import_result = Module "command_class list" | ImportFails exn

text \<open>
  What the executor reads from outside at each call: the module system, and the
  \<^verbatim>\<open>fun_commands\<close> entry of the configuration's \<^verbatim>\<open>features\<close>, if there is one.
\<close>

record environment =
  import_module :: "string \<Rightarrow> import_result"
  fun_commands :: "bool option"

record Executor =
  commands_module :: string
  aliases :: "string \<Rightarrow> string option"

subsection \<open>What the executor prints and logs\<close>

text \<open>
  The messages, one constructor for each text of the source, with the values that the
  f-string formats:
  \<^item> \<open>FunDisabledNotice\<close>: "Fun commands are currently disabled. Please enable them ...";
  \<^item> \<open>FunDisabledWarning\<close>: "User attempted to run a fun command while fun commands are disabled.";
  \<^item> \<open>ExnText e\<close>: \<^verbatim>\<open>print(e)\<close>;
  \<^item> \<open>ErrorLoading n e\<close>: \<^verbatim>\<open>f"Error loading command '{cmd_name}': {e}"\<close>;
  \<^item> \<open>FailedExitCode n r\<close>: \<^verbatim>\<open>f"Command '{cmd_name}' failed with exit code {result}"\<close>;
  \<^item> \<open>ErrorExecuting n e\<close>: \<^verbatim>\<open>f"Error executing command '{cmd_name}': {e}"\<close>;
  \<^item> \<open>ErrorRunning n e\<close>: \<^verbatim>\<open>f"Error running command '{cmd_name}': {e}"\<close>;
  \<^item> \<open>UnsupportedChainType t\<close>: \<^verbatim>\<open>f"Unsupported chain type: {cmd_type}"\<close>.
\<close>

datatype message =
    FunDisabledNotice
  | FunDisabledWarning
  | ExnText exn
  | ErrorLoading "string option" exn
  | FailedExitCode "string option" pyval
  | ErrorExecuting "string option" exn
  | ErrorRunning "string option" exn
  | UnsupportedChainType string

datatype level = ERROR | WARNING

text \<open>
  The trace of a call, in order: what is printed, what is logged (logger name, level,
  message), and each call of a plugin's \<^verbatim>\<open>execute\<close> (class, positional and named
  arguments).
\<close>

datatype event =
    Print message
  | Log string level message
  | Execute string "string list" kwargs_dict

fun is_Execute :: "event \<Rightarrow> bool" where
  "is_Execute (Execute n a k) = True"
| "is_Execute e = False"

fun is_Print :: "event \<Rightarrow> bool" where
  "is_Print (Print m) = True"
| "is_Print e = False"

fun is_Log :: "event \<Rightarrow> bool" where
  "is_Log (Log n l m) = True"
| "is_Log e = False"

subsection \<open>Alias resolution and plugin lookup\<close>

text \<open>\<^verbatim>\<open>self.aliases.get(command, command)\<close>; \<^verbatim>\<open>command\<close> is \<^verbatim>\<open>None\<close> when the chain has
  no \<^verbatim>\<open>"cmd"\<close>, and \<^verbatim>\<open>None\<close> is then what comes back.\<close>

definition resolve_alias :: "Executor \<Rightarrow> string option \<Rightarrow> string option" where
  "resolve_alias self command =
     (case command of
        None \<Rightarrow> None
      | Some c \<Rightarrow> (case aliases self c of None \<Rightarrow> Some c | Some c' \<Rightarrow> Some c'))"

text \<open>\<^verbatim>\<open>str.lower\<close> on the code points below 256.\<close>

definition lower_char :: "char \<Rightarrow> char" where
  "lower_char c =
     (let n = (of_char c :: nat)
      in if (65 \<le> n \<and> n \<le> 90) \<or> (192 \<le> n \<and> n \<le> 222 \<and> n \<noteq> 215)
         then char_of (n + 32) else c)"

definition lower :: "string \<Rightarrow> string" where
  "lower s = map lower_char s"

text \<open>
  The first half of the first \<^verbatim>\<open>try\<close> block: import
  \<^verbatim>\<open>f"{self.commands_module}.{cmd_name.lower()}"\<close> and take the first class that is a
  proper subclass of \<^verbatim>\<open>BaseCommand\<close>; \<^verbatim>\<open>CommandClass\<close> stays \<^verbatim>\<open>None\<close> when the module
  has none. \<^verbatim>\<open>None.lower()\<close> raises \<^verbatim>\<open>AttributeError\<close>.
\<close>

definition load_command :: "environment \<Rightarrow> Executor \<Rightarrow> string option \<Rightarrow> exn + command_class option" where
  "load_command env self cmd_name =
     (case cmd_name of
        None \<Rightarrow> Inl (AttributeError ''NoneType object has no attribute lower'')
      | Some n \<Rightarrow>
          (case import_module env (commands_module self @ ''.'' @ lower n) of
             ImportFails e \<Rightarrow> Inl e
           | Module classes \<Rightarrow> Inr (find is_command classes)))"

text \<open>
  \<^verbatim>\<open>getattr(CommandClass, "fun", False) and not Config.get_config().get("features",
  {}).get("fun_commands", True)\<close>.
\<close>

definition fun_gated :: "environment \<Rightarrow> command_class option \<Rightarrow> bool" where
  "fun_gated env CommandClass =
     ((case CommandClass of
         None \<Rightarrow> False
       | Some cls \<Rightarrow> (case fun_attr cls of None \<Rightarrow> False | Some b \<Rightarrow> b))
      \<and> \<not> (case fun_commands env of None \<Rightarrow> True | Some b \<Rightarrow> b))"

subsection \<open>\<^verbatim>\<open>Executor.execute_command\<close> and \<^verbatim>\<open>Executor.run\<close>\<close>

text \<open>
  The second \<^verbatim>\<open>try\<close> block. Calling \<^verbatim>\<open>CommandClass()\<close> when it is \<^verbatim>\<open>None\<close> raises
  \<^verbatim>\<open>TypeError\<close>, which \<^verbatim>\<open>except Exception\<close> catches like any error of the plugin.
\<close>

definition caught :: "string option \<Rightarrow> exn \<Rightarrow> event list" where
  "caught cmd_name e =
     [Log ''executor'' ERROR (ErrorExecuting cmd_name e), Print (ErrorRunning cmd_name e)]"

definition invoke ::
  "string option \<Rightarrow> command_class option \<Rightarrow> string list \<Rightarrow> kwargs_dict \<Rightarrow> (exn + bool) \<times> event list" where
  "invoke cmd_name CommandClass args kwargs =
     (case CommandClass of
        None \<Rightarrow> (Inr False, caught cmd_name (TypeError ''NoneType object is not callable''))
      | Some cls \<Rightarrow>
          (case execute cls args kwargs of
             Returned result \<Rightarrow>
               if ne_zero result
               then (Inr False,
                     [Execute (class_name cls) args kwargs,
                      Log ''executor'' ERROR (FailedExitCode cmd_name result),
                      Print (FailedExitCode cmd_name result)])
               else (Inr True, [Execute (class_name cls) args kwargs])
           | Raised e \<Rightarrow>
               if is_Exception e
               then (Inr False, Execute (class_name cls) args kwargs # caught cmd_name e)
               else (Inl e, [Execute (class_name cls) args kwargs])))"

text \<open>Python's \<^verbatim>\<open>str\<close> of the command name, for the text of the error raised.\<close>

definition str_of :: "string option \<Rightarrow> string" where
  "str_of cmd_name = (case cmd_name of None \<Rightarrow> ''None'' | Some n \<Rightarrow> n)"

text \<open>
  The result is \<open>Inl\<close> for an exception that leaves \<^verbatim>\<open>execute_command\<close> and \<open>Inr\<close> for
  the boolean returned, with the trace of the call. \<^verbatim>\<open>cmd_dict.get("args", [])\<close> and
  \<^verbatim>\<open>cmd_dict.get("kwargs", {})\<close> come first.
\<close>

definition get_args :: "chain \<Rightarrow> string list" where
  "get_args cmd_dict = (case chain_args cmd_dict of None \<Rightarrow> [] | Some a \<Rightarrow> a)"

definition get_kwargs :: "chain \<Rightarrow> kwargs_dict" where
  "get_kwargs cmd_dict = (case chain_kwargs cmd_dict of None \<Rightarrow> [] | Some k \<Rightarrow> k)"

definition execute_command :: "environment \<Rightarrow> Executor \<Rightarrow> chain \<Rightarrow> (exn + bool) \<times> event list" where
  "execute_command env self cmd_dict =
     (let cmd_name = resolve_alias self (chain_cmd cmd_dict);
          args = get_args cmd_dict;
          kwargs = get_kwargs cmd_dict
      in case load_command env self cmd_name of
           Inl e \<Rightarrow>
             if is_load_error e
             then (Inl (ModuleNotFoundError (''Command not found: '' @ str_of cmd_name)),
                   [Print (ExnText e), Log ''executor'' ERROR (ErrorLoading cmd_name e)])
             else (Inl e, [])
         | Inr CommandClass \<Rightarrow>
             if fun_gated env CommandClass
             then (Inr True, [Print FunDisabledNotice, Log ''executor'' WARNING FunDisabledWarning])
             else invoke cmd_name CommandClass args kwargs)"

text \<open>
  The loop of \<^verbatim>\<open>Executor.run\<close>, with \<^verbatim>\<open>last_status\<close> as its state and
  \<^verbatim>\<open>chain.get("type", "COMMAND")\<close> as \<open>get_type\<close>. An exception of
  \<^verbatim>\<open>execute_command\<close> is not caught here: it ends the loop and leaves \<^verbatim>\<open>run\<close>.
\<close>

definition get_type :: "chain \<Rightarrow> string" where
  "get_type c = (case chain_type c of None \<Rightarrow> ''COMMAND'' | Some t \<Rightarrow> t)"

fun run_loop ::
  "environment \<Rightarrow> Executor \<Rightarrow> chain list \<Rightarrow> bool \<Rightarrow> (exn + bool) \<times> event list" where
  "run_loop env self [] last_status = (Inr last_status, [])"
| "run_loop env self (c # cs) last_status =
     (let cmd_type = get_type c
      in if cmd_type = ''COMMAND'' then
           (case execute_command env self c of
              (Inl e, evs) \<Rightarrow> (Inl e, evs)
            | (Inr status, evs) \<Rightarrow>
                (case run_loop env self cs status of (r, evs') \<Rightarrow> (r, evs @ evs')))
         else
           (case run_loop env self cs last_status of
              (r, evs') \<Rightarrow> (r, Print (UnsupportedChainType cmd_type) # evs')))"

definition run :: "environment \<Rightarrow> Executor \<Rightarrow> chain list \<Rightarrow> (exn + bool) \<times> event list" where
  "run env self chs = run_loop env self chs True"

subsection \<open>A small installation, for the examples\<close>

text \<open>
  A method declared \<^verbatim>\<open>def execute(self, *args, **kwargs)\<close>, as the plugins of the
  repository declare it, called as \<^verbatim>\<open>execute(*args, **kwargs)\<close> on an instance: a keyword
  named \<^verbatim>\<open>self\<close> collides with the instance and the call raises \<^verbatim>\<open>TypeError\<close> before
  the body runs; every other call runs the body.
\<close>

definition variadic ::
  "(string list \<Rightarrow> kwargs_dict \<Rightarrow> outcome) \<Rightarrow> string list \<Rightarrow> kwargs_dict \<Rightarrow> outcome" where
  "variadic body args kwargs =
     (if ''self'' \<in> fst ` set kwargs
      then Raised (TypeError ''execute() got multiple values for argument self'')
      else body args kwargs)"

text \<open>
  \<^verbatim>\<open>BaseCommand.execute(self, args, kwargs)\<close>, which a subclass that does not override
  \<^verbatim>\<open>execute\<close> inherits, called as \<^verbatim>\<open>execute(*args, **kwargs)\<close>: the call binds when
  exactly the parameters \<^verbatim>\<open>args\<close> and \<^verbatim>\<open>kwargs\<close> each get one value, by position or by
  keyword, and then the body raises \<^verbatim>\<open>NotImplementedError\<close>; any other call, the one
  without arguments among them, raises \<^verbatim>\<open>TypeError\<close>.
\<close>

definition BaseCommand_execute :: "string list \<Rightarrow> kwargs_dict \<Rightarrow> outcome" where
  "BaseCommand_execute args kwargs =
     (if (length args = 2 \<and> kwargs = [])
         \<or> (length args = 1 \<and> map fst kwargs = [''kwargs''])
         \<or> (args = [] \<and> (map fst kwargs = [''args'', ''kwargs'']
                          \<or> map fst kwargs = [''kwargs'', ''args'']))
      then Raised (OtherException ''NotImplementedError'')
      else Raised (TypeError ''execute() arguments do not bind''))"

text \<open>
  The plugins of the examples. \<^verbatim>\<open>Echo\<close> (\<^verbatim>\<open>commands/echo.py\<close>) has \<^verbatim>\<open>fun = False\<close>
  and returns 0; \<^verbatim>\<open>HeadsOrTails\<close> (\<^verbatim>\<open>commands/headsortails.py\<close>) has \<^verbatim>\<open>fun = True\<close>
  and returns 0. The others are not in the repository: they are plugins as one could add
  to its \<^verbatim>\<open>commands\<close> directory, each with one of the outcomes that the executor tells
  apart. \<^verbatim>\<open>Failing\<close> returns the exit code 1; \<^verbatim>\<open>Unfinished\<close> does not override
  \<^verbatim>\<open>execute\<close>; \<^verbatim>\<open>Silent\<close> returns nothing; \<^verbatim>\<open>Interrupted\<close> is interrupted from the
  keyboard while it runs; \<^verbatim>\<open>Prank\<close> is a fun plugin that would fail if it ran.
\<close>

definition Echo :: command_class where
  "Echo = \<lparr>class_name = ''Echo'', is_command = True, fun_attr = Some False,
           execute = variadic (\<lambda>args kwargs. Returned (PyInt 0))\<rparr>"

definition HeadsOrTails :: command_class where
  "HeadsOrTails = \<lparr>class_name = ''HeadsOrTails'', is_command = True, fun_attr = Some True,
                   execute = variadic (\<lambda>args kwargs. Returned (PyInt 0))\<rparr>"

definition Failing :: command_class where
  "Failing = \<lparr>class_name = ''Failing'', is_command = True, fun_attr = None,
              execute = variadic (\<lambda>args kwargs. Returned (PyInt 1))\<rparr>"

definition Unfinished :: command_class where
  "Unfinished = \<lparr>class_name = ''Unfinished'', is_command = True, fun_attr = None,
                 execute = BaseCommand_execute\<rparr>"

definition Silent :: command_class where
  "Silent = \<lparr>class_name = ''Silent'', is_command = True, fun_attr = None,
             execute = variadic (\<lambda>args kwargs. Returned PyNone)\<rparr>"

definition Interrupted :: command_class where
  "Interrupted = \<lparr>class_name = ''Interrupted'', is_command = True, fun_attr = None,
                  execute = variadic (\<lambda>args kwargs. Raised KeyboardInterrupt)\<rparr>"

definition Prank :: command_class where
  "Prank = \<lparr>class_name = ''Prank'', is_command = True, fun_attr = Some True,
            execute = variadic (\<lambda>args kwargs. Returned (PyInt 1))\<rparr>"

text \<open>
  The modules of the \<^verbatim>\<open>commands\<close> package. \<^verbatim>\<open>commands.__pycache__\<close> is the directory
  of compiled files, which Python imports as a namespace package: a module with no class.
\<close>

definition example_modules :: "string \<Rightarrow> import_result" where
  "example_modules name =
     (if name = ''commands.echo'' then Module [Echo]
      else if name = ''commands.headsortails'' then Module [HeadsOrTails]
      else if name = ''commands.failing'' then Module [Failing]
      else if name = ''commands.unfinished'' then Module [Unfinished]
      else if name = ''commands.silent'' then Module [Silent]
      else if name = ''commands.interrupted'' then Module [Interrupted]
      else if name = ''commands.prank'' then Module [Prank]
      else if name = ''commands.__pycache__'' then Module []
      else ImportFails (ModuleNotFoundError name))"

definition fun_disabled :: environment where
  "fun_disabled = \<lparr>import_module = example_modules, fun_commands = Some False\<rparr>"

definition example_executor :: Executor where
  "example_executor = \<lparr>commands_module = ''commands'', aliases = [''say'' \<mapsto> ''echo'']\<rparr>"

text \<open>The chain that the parser makes of a command name alone.\<close>

definition bare :: "string \<Rightarrow> chain" where
  "bare name = \<lparr>chain_type = Some ''COMMAND'', chain_cmd = Some name,
                 chain_args = Some [], chain_kwargs = Some []\<rparr>"

section \<open>Notions of the specification\<close>

text \<open>
  The specification's invariant on tokens: the literal of a Command-kind token has at
  least one character.
\<close>

definition named_commands :: "Token list \<Rightarrow> bool" where
  "named_commands toks = list_all (\<lambda>t. ttype t = COMMAND \<longrightarrow> tvalue t \<noteq> []) toks"

text \<open>The same invariant on what a parser has still to read, and the specification's
  invariant on a chain: tagged "COMMAND", with a name of at least one character.\<close>

definition input_named :: "Parser \<Rightarrow> bool" where
  "input_named self = named_commands (current self # tokens self)"

definition tagged_and_named :: "chain \<Rightarrow> bool" where
  "tagged_and_named c = (chain_type c = Some ''COMMAND'' \<and> (\<exists>n. chain_cmd c = Some n \<and> n \<noteq> []))"

text \<open>
  The specification's grammar, \<^verbatim>\<open>command := Command-token (flag | positional)*\<close>: a
  command text is a text that the tokenizer accepts and whose tokens, before the final
  \<^verbatim>\<open>EOF\<close>, are one Command-kind token followed by flag, string and command tokens only.
\<close>

definition is_argument :: "Token \<Rightarrow> bool" where
  "is_argument t = (ttype t \<in> {COMMAND, STRING, FLAG})"

definition command_text :: "string \<Rightarrow> bool" where
  "command_text text =
     (case tokenize text of
        (toks, Some e) \<Rightarrow> False
      | (toks, None) \<Rightarrow>
          (case toks of
             [] \<Rightarrow> False
           | t # ts \<Rightarrow> ttype t = COMMAND \<and> list_all is_argument (butlast ts)))"

section \<open>Properties of the tokenizer\<close>

text \<open>
  C1. The line \<^verbatim>\<open>cmd --opt=value pos1\<close> does not reach the parser. The flag pattern
  \<^verbatim>\<open>--?\w+\<close> stops before \<^verbatim>\<open>=\<close>, no other pattern but the catch-all matches \<^verbatim>\<open>=\<close>,
  and the tokenizer raises at position 9, after yielding \<open>Command("cmd")\<close> and
  \<open>Flag("--opt")\<close>: tokenizing and then parsing the line ends with that error and no chain.
\<close>

theorem opt_value_line_is_rejected:
  "tokenize ''cmd --opt=value pos1'' =
     ([Token COMMAND ''cmd'', Token FLAG ''--opt''], Some (UnexpectedCharacter ''='' 9))
   \<and> tokenize_and_parse ''cmd --opt=value pos1'' = Inl (UnexpectedCharacter ''='' 9)"
  by code_simp

text \<open>
  C2, as stated, fails: the flag token of \<^verbatim>\<open>echo hello --flag\<close> does not have the
  literal \<open>flag\<close>.
\<close>

theorem echo_flag_tokens_not_stripped:
  "tokenize ''echo hello --flag'' \<noteq>
     ([Token COMMAND ''echo'', Token COMMAND ''hello'', Token FLAG ''flag'', Token EOF ''''], None)"
  by code_simp

text \<open>
  C2, amended. Tokenizing \<^verbatim>\<open>echo hello --flag\<close> yields exactly the four tokens
  \<open>Command("echo")\<close>, \<open>Command("hello")\<close>, \<open>Flag("--flag")\<close> and \<open>EndOfInput\<close>, none of them
  a Whitespace token. The tokenizer keeps the dashes in the flag's literal; it is the
  parser that strips them, when it binds the named argument (\<open>flag_name\<close>).
\<close>

theorem echo_flag_tokens:
  "tokenize ''echo hello --flag'' =
     ([Token COMMAND ''echo'', Token COMMAND ''hello'', Token FLAG ''--flag'', Token EOF ''''], None)
   \<and> WHITESPACE \<notin> ttype ` set (fst (tokenize ''echo hello --flag''))
   \<and> flag_name (Token FLAG ''--flag'') = ''flag''"
  by code_simp

subsection \<open>The master pattern\<close>

lemma is_space_blank: "is_space (CHR '' '')"
  by (simp add: is_space_def)

lemma not_word_blank: "\<not> is_word (CHR '' '')"
  by (simp add: is_word_def)

lemma not_command_char_blank: "\<not> is_command_char (CHR '' '')"
  by (simp add: is_command_char_def)

lemma is_space_newline: "is_space (CHR 0x0A)"
  by (simp add: is_space_def)

lemma master_pattern_match_unfold:
  "master_pattern_match s =
     (case re_plus is_space s of Some g \<Rightarrow> Some (WHITESPACE, g) | None \<Rightarrow>
      case re_literal ''&&'' s of Some g \<Rightarrow> Some (AND, g) | None \<Rightarrow>
      case re_literal ''||'' s of Some g \<Rightarrow> Some (OR, g) | None \<Rightarrow>
      case re_literal '';'' s of Some g \<Rightarrow> Some (SEMI, g) | None \<Rightarrow>
      case re_flag s of Some g \<Rightarrow> Some (FLAG, g) | None \<Rightarrow>
      case re_quoted (CHR 0x22) s of Some g \<Rightarrow> Some (STRING, g) | None \<Rightarrow>
      case re_quoted (CHR 0x27) s of Some g \<Rightarrow> Some (STRING, g) | None \<Rightarrow>
      case re_plus is_command_char s of Some g \<Rightarrow> Some (COMMAND, g) | None \<Rightarrow>
      case re_dot s of Some g \<Rightarrow> Some (MISMATCH, g) | None \<Rightarrow> None)"
  by (simp add: master_pattern_match_def patterns_def split: option.splits)


lemma master_pattern_match_total:
  "s \<noteq> [] \<Longrightarrow> master_pattern_match s \<noteq> None"
  by (cases s)
     (auto simp: master_pattern_match_unfold re_dot_def re_plus_def is_space_newline
           split: option.splits)


lemma master_pattern_match_command:
  "master_pattern_match s = Some (COMMAND, g) \<Longrightarrow> g \<noteq> [] \<and> token_value COMMAND g = g"
  by (auto dest: master_pattern_match_nonempty simp: token_value_def)


subsection \<open>Lexical errors\<close>


subsection \<open>A character after the text\<close>

text \<open>
  What the master pattern matches at the start of a text \<open>A\<close> is still what it matches
  when a character that continues no token, and anything after it, follow \<open>A\<close>.
\<close>

lemma re_plus_tail: "\<not> P c \<Longrightarrow> re_plus P (A @ c # X) = re_plus P A"
  by (simp add: re_plus_def takeWhile_tail)

lemma re_plus_hd: "re_plus P s = Some g \<Longrightarrow> s \<noteq> [] \<and> P (hd s)"
  by (cases s) (auto simp: re_plus_def Let_def split: if_splits)

lemma re_plus_not_hd: "A \<noteq> [] \<Longrightarrow> \<not> P (hd A) \<Longrightarrow> re_plus P (A @ Y) = None"
  by (cases A) (auto simp: re_plus_def)

lemma re_literal_tail:
  assumes "c \<notin> set lit"
  shows "re_literal lit (A @ c # X) = re_literal lit A"
proof (cases "length lit \<le> length A")
  case True
  then have "take (length lit) (A @ c # X) = take (length lit) A" by simp
  then show ?thesis by (simp only: re_literal_def)
next
  case False
  then have "length A < length lit" by simp
  then obtain k where k: "length lit = Suc (length A + k)"
    using less_imp_Suc_add by blast
  have n1: "take (length lit) A \<noteq> lit"
  proof
    assume "take (length lit) A = lit"
    then have "length (take (length lit) A) = length lit" by (rule arg_cong)
    with k show False by simp
  qed
  have n2: "take (length lit) (A @ c # X) \<noteq> lit"
  proof
    assume e: "take (length lit) (A @ c # X) = lit"
    have "take (Suc (length A + k)) (A @ c # X) = A @ c # take k X" by simp
    then have "c \<in> set (take (length lit) (A @ c # X))" by (simp only: k) simp
    with e assms show False by simp
  qed
  show ?thesis by (simp only: re_literal_def n1 n2 if_False)
qed

lemma re_literal_pair_tail:
  assumes "A \<noteq> []" and "A \<noteq> [d]"
  shows "re_literal [d, d] (A @ Y) = re_literal [d, d] A"
proof (cases A)
  case Nil
  with assms show ?thesis by simp
next
  case (Cons a A')
  show ?thesis
  proof (cases A')
    case Nil
    with Cons assms have "a \<noteq> d" by simp
    with Cons Nil show ?thesis by (simp add: re_literal_def)
  next
    case (Cons b A'')
    with \<open>A = a # A'\<close> show ?thesis by (simp add: re_literal_def)
  qed
qed

lemma re_flag_tail:
  assumes "\<not> is_word c" and "c \<noteq> CHR ''-''"
  shows "re_flag (A @ c # X) = re_flag A"
proof (cases A)
  case Nil
  with assms show ?thesis by (simp add: re_flag_def)
next
  case (Cons a A')
  show ?thesis
  proof (cases A')
    case Nil
    with Cons assms show ?thesis by (simp add: re_flag_def)
  next
    case (Cons b A'')
    have 1: "takeWhile is_word (A'' @ c # X) = takeWhile is_word A''"
      using assms(1) by (simp add: takeWhile_tail)
    have 2: "takeWhile is_word (b # A'' @ c # X) = takeWhile is_word (b # A'')"
      using takeWhile_tail [of is_word c "b # A''" X] assms(1) by simp
    from \<open>A = a # A'\<close> Cons show ?thesis
      unfolding re_flag_def by (simp only: append_Cons list.case 1 2)
  qed
qed

lemma quoted_body_append:
  "quoted_body q r = Some g \<Longrightarrow> quoted_body q (r @ Y) = Some g"
proof (induction q r arbitrary: g rule: quoted_body.induct)
  case (1 q)
  then show ?case by simp
next
  case (2 q c)
  then show ?case by (cases Y) (auto split: if_splits)
next
  case (3 q c d s)
  then show ?case by (auto split: if_splits)
qed

lemma re_quoted_append: "re_quoted q A = Some g \<Longrightarrow> re_quoted q (A @ Y) = Some g"
  by (cases A) (auto simp: re_quoted_def quoted_body_append split: if_splits)

lemma re_quoted_hd: "re_quoted q s = Some g \<Longrightarrow> s \<noteq> [] \<and> hd s = q"
  by (cases s) (auto simp: re_quoted_def split: if_splits)

lemma re_quoted_not_hd: "A \<noteq> [] \<Longrightarrow> hd A \<noteq> q \<Longrightarrow> re_quoted q (A @ Y) = None"
  by (cases A) (auto simp: re_quoted_def)

lemma not_command_char_quotes:
  "\<not> is_command_char (CHR 0x22)" "\<not> is_command_char (CHR 0x27)"
  by (simp_all add: is_command_char_def)

lemma master_pattern_match_whitespace:
  "master_pattern_match s = Some (WHITESPACE, g) \<Longrightarrow> s \<noteq> [] \<and> is_space (hd s)"
  by (auto simp: master_pattern_match_unfold split: option.splits dest: re_plus_hd)

lemma master_pattern_match_space:
  "is_space c \<Longrightarrow> master_pattern_match (c # s) = Some (WHITESPACE, c # takeWhile is_space s)"
  by (simp add: master_pattern_match_unfold re_plus_def)

lemma master_pattern_match_lone:
  "master_pattern_match ''&'' = Some (MISMATCH, ''&'')"
  "master_pattern_match ''|'' = Some (MISMATCH, ''|'')"
  by (simp_all add: master_pattern_match_unfold re_plus_def re_literal_def re_flag_def
        re_quoted_def re_dot_def is_space_def is_command_char_def)

lemma master_pattern_match_tail:
  assumes m: "master_pattern_match A = Some (ty, g)"
    and nw: "ty \<noteq> WHITESPACE" and nm: "ty \<noteq> MISMATCH"
    and c: "\<not> is_word c" "\<not> is_command_char c" "c \<noteq> CHR '';''"
  shows "master_pattern_match (A @ c # X) = Some (ty, g)"
proof -
  let ?Y = "c # X"
  from m have ne: "A \<noteq> []"
    by (cases A) (auto simp: master_pattern_match_unfold re_plus_def re_literal_def re_flag_def
          re_quoted_def re_dot_def)
  have ws: "re_plus is_space A = None"
    using m nw by (auto simp: master_pattern_match_unfold split: option.splits)
  then have "\<not> is_space (hd A)" using ne by (cases A) (auto simp: re_plus_def)
  then have ws': "re_plus is_space (A @ ?Y) = None" using ne by (rule re_plus_not_hd [rotated])
  from m nm have lone: "A \<noteq> ''&''" "A \<noteq> ''|''"
    using master_pattern_match_lone by auto
  have l1: "re_literal ''&&'' (A @ ?Y) = re_literal ''&&'' A"
    using ne lone(1) by (rule re_literal_pair_tail)
  have l2: "re_literal ''||'' (A @ ?Y) = re_literal ''||'' A"
    using ne lone(2) by (rule re_literal_pair_tail)
  have l3: "re_literal '';'' (A @ ?Y) = re_literal '';'' A"
    using c(3) by (simp add: re_literal_tail)
  from c(2) have dash: "c \<noteq> CHR ''-''" by (auto simp: is_command_char_def)
  note fl = re_flag_tail [of c A X, OF c(1) dash]
  note cm = re_plus_tail [of is_command_char c A X, OF c(2)]
  show ?thesis
  proof (cases "re_literal ''&&'' A = None \<and> re_literal ''||'' A = None
                \<and> re_literal '';'' A = None \<and> re_flag A = None")
    case False
    then consider
        (a) g1 where "re_literal ''&&'' A = Some g1"
      | (b) g1 where "re_literal ''&&'' A = None" "re_literal ''||'' A = Some g1"
      | (c) g1 where "re_literal ''&&'' A = None" "re_literal ''||'' A = None"
          "re_literal '';'' A = Some g1"
      | (d) g1 where "re_literal ''&&'' A = None" "re_literal ''||'' A = None"
          "re_literal '';'' A = None" "re_flag A = Some g1"
      by (cases "re_literal ''&&'' A"; cases "re_literal ''||'' A";
          cases "re_literal '';'' A"; cases "re_flag A") auto
    then show ?thesis
    proof cases
      case a
      with m ws show ?thesis by (simp add: master_pattern_match_unfold ws' l1)
    next
      case b
      with m ws show ?thesis by (simp add: master_pattern_match_unfold ws' l1 l2)
    next
      case c
      with m ws show ?thesis by (simp add: master_pattern_match_unfold ws' l1 l2 l3)
    next
      case d
      with m ws show ?thesis by (simp add: master_pattern_match_unfold ws' l1 l2 l3 fl)
    qed
  next
    case early: True
    show ?thesis
    proof (cases "re_quoted (CHR 0x22) A")
      case (Some gq)
      with m ws early re_quoted_append [OF Some, of ?Y] show ?thesis
        by (simp add: master_pattern_match_unfold ws' l1 l2 l3 fl)
    next
      case dq: None
      show ?thesis
      proof (cases "re_quoted (CHR 0x27) A")
        case (Some gq)
        from re_quoted_hd [OF Some] have "hd A \<noteq> CHR 0x22" by simp
        then have "re_quoted (CHR 0x22) (A @ ?Y) = None" using ne by (rule re_quoted_not_hd [rotated])
        with m ws early dq Some re_quoted_append [OF Some, of ?Y] show ?thesis
          by (simp add: master_pattern_match_unfold ws' l1 l2 l3 fl)
      next
        case sq: None
        from m ws early dq sq nm obtain gc where c: "re_plus is_command_char A = Some gc"
          by (auto simp: master_pattern_match_unfold split: option.splits)
        from re_plus_hd [OF c] have "is_command_char (hd A)" by simp
        then have "hd A \<noteq> CHR 0x22" "hd A \<noteq> CHR 0x27"
          using not_command_char_quotes by auto
        then have "re_quoted (CHR 0x22) (A @ ?Y) = None" "re_quoted (CHR 0x27) (A @ ?Y) = None"
          using ne by (simp_all add: re_quoted_not_hd)
        with m ws early dq sq c show ?thesis
          by (simp add: master_pattern_match_unfold ws' l1 l2 l3 fl cm)
      qed
    qed
  qed
qed

lemma quoted_body_length: "quoted_body q r = Some g \<Longrightarrow> length g \<le> length r"
  by (induction q r arbitrary: g rule: quoted_body.induct) (auto split: if_splits)

lemma first_match_property:
  "first_match ps s = Some (t, g) \<Longrightarrow>
   (\<And>t' p g'. (t', p) \<in> set ps \<Longrightarrow> p s = Some g' \<Longrightarrow> Q g') \<Longrightarrow> Q g"
  by (induction ps s rule: first_match.induct) (auto split: option.splits)

lemma re_plus_length: "re_plus P s = Some g \<Longrightarrow> length g \<le> length s"
  by (auto simp: re_plus_def Let_def length_takeWhile_le split: if_splits)

lemma re_literal_length: "re_literal lit s = Some g \<Longrightarrow> length g \<le> length s"
proof -
  assume "re_literal lit s = Some g"
  then have eq: "take (length lit) s = lit" and g: "g = lit"
    by (auto simp: re_literal_def split: if_splits)
  from eq have "length (take (length lit) s) = length lit" by (rule arg_cong)
  with g show ?thesis by (simp add: min_def split: if_splits)
qed

lemma re_flag_length: "re_flag s = Some g \<Longrightarrow> length g \<le> length s"
  by (auto simp: re_flag_def length_takeWhile_le split: list.splits if_splits)

lemma re_quoted_length: "re_quoted q s = Some g \<Longrightarrow> length g \<le> length s"
  by (auto simp: re_quoted_def split: list.splits if_splits dest: quoted_body_length)

lemma re_dot_length: "re_dot s = Some g \<Longrightarrow> length g \<le> length s"
  by (auto simp: re_dot_def split: list.splits if_splits)

lemma master_pattern_match_length:
  "master_pattern_match s = Some (ty, g) \<Longrightarrow> length g \<le> length s"
  unfolding master_pattern_match_def
  by (erule first_match_property)
     (auto simp: patterns_def
           dest: re_plus_length re_literal_length re_flag_length re_quoted_length re_dot_length)

subsection \<open>The scan loop on a text and a continuation\<close>

lemma tokenize_from_space:
  assumes "is_space c"
  shows "tokenize_from pos (c # s) = tokenize_from (Suc pos) s"
proof (cases s)
  case Nil
  with assms show ?thesis
    by (simp add: tokenize_from.simps [of pos "[c]"] master_pattern_match_space)
next
  case (Cons d s')
  show ?thesis
  proof (cases "is_space d")
    case True
    have "tokenize_from pos (c # d # s')
            = tokenize_from (pos + length (c # takeWhile is_space (d # s')))
                (drop (length (c # takeWhile is_space (d # s'))) (c # d # s'))"
      using assms
      by (subst tokenize_from.simps) (simp add: master_pattern_match_space)
    also have "\<dots> = tokenize_from (Suc pos + length (d # takeWhile is_space s'))
                (drop (length (d # takeWhile is_space s')) (d # s'))"
      using True by simp
    also have "\<dots> = tokenize_from (Suc pos) (d # s')"
      using True
      by (subst (2) tokenize_from.simps) (simp add: master_pattern_match_space)
    finally show ?thesis using Cons by simp
  next
    case False
    with assms Cons show ?thesis
      by (subst tokenize_from.simps) (simp add: master_pattern_match_space)
  qed
qed

lemma tokenize_from_shift:
  "fst (tokenize_from p s) = fst (tokenize_from q s)
   \<and> (snd (tokenize_from p s) = None) = (snd (tokenize_from q s) = None)"
proof (induction p s arbitrary: q rule: tokenize_from.induct)
  case (1 pos s)
  show ?case
  proof (cases "s = []")
    case True
    then show ?thesis by (simp add: tokenize_from.simps)
  next
    case ne: False
    then obtain ty g where m: "master_pattern_match s = Some (ty, g)"
      using master_pattern_match_total by fastforce
    show ?thesis
    proof (cases "ty = WHITESPACE")
      case True
      with "1.IH"(1) [OF ne m refl True, of "q + length g"] ne m show ?thesis
        by (simp add: tokenize_from.simps [of pos s] tokenize_from.simps [of q s])
    next
      case nw: False
      show ?thesis
      proof (cases "ty = MISMATCH")
        case True
        with ne m show ?thesis
          by (simp add: tokenize_from.simps [of pos s] tokenize_from.simps [of q s])
      next
        case nm: False
        with "1.IH"(2) [OF ne m refl nw nm, of "q + length g"] ne m nw show ?thesis
          by (simp add: tokenize_from.simps [of pos s] tokenize_from.simps [of q s]
                case_prod_unfold)
      qed
    qed
  qed
qed

lemma tokenize_from_ends:
  "snd (tokenize_from pos s) = None \<Longrightarrow>
   fst (tokenize_from pos s) \<noteq> [] \<and> last (fst (tokenize_from pos s)) = Token EOF []"
proof (induction pos s rule: tokenize_from.induct)
  case (1 pos s)
  show ?case
  proof (cases "s = []")
    case True
    then show ?thesis by (simp add: tokenize_from.simps)
  next
    case ne: False
    then obtain ty g where m: "master_pattern_match s = Some (ty, g)"
      using master_pattern_match_total by fastforce
    show ?thesis
    proof (cases "ty = WHITESPACE")
      case True
      with "1.IH"(1) [OF ne m refl True] "1.prems" ne m show ?thesis
        by (simp add: tokenize_from.simps [of pos s])
    next
      case nw: False
      show ?thesis
      proof (cases "ty = MISMATCH")
        case True
        with ne m "1.prems" show ?thesis by (simp add: tokenize_from.simps [of pos s])
      next
        case nm: False
        with "1.IH"(2) [OF ne m refl nw nm] "1.prems" ne m nw show ?thesis
          by (simp add: tokenize_from.simps [of pos s] case_prod_unfold)
      qed
    qed
  qed
qed

lemma tokenize_from_tail:
  "snd (tokenize_from p A) = None \<Longrightarrow>
   fst (tokenize_from p (A @ CHR '' '' # X))
     = butlast (fst (tokenize_from p A)) @ fst (tokenize_from 0 X)
   \<and> (snd (tokenize_from p (A @ CHR '' '' # X)) = None) = (snd (tokenize_from 0 X) = None)"
proof (induction A arbitrary: p rule: length_induct)
  case (1 A)
  show ?case
  proof (cases A)
    case Nil
    have "tokenize_from p (CHR '' '' # X) = tokenize_from (Suc p) X"
      by (rule tokenize_from_space [OF is_space_blank])
    with Nil tokenize_from_shift [of "Suc p" X 0] show ?thesis
      by (simp add: tokenize_from.simps [of p "[]"])
  next
    case (Cons a A')
    show ?thesis
    proof (cases "is_space a")
      case True
      have l: "tokenize_from p A = tokenize_from (Suc p) A'"
        unfolding Cons by (rule tokenize_from_space [OF True])
      have r: "tokenize_from p (A @ CHR '' '' # X) = tokenize_from (Suc p) (A' @ CHR '' '' # X)"
        unfolding Cons append_Cons by (rule tokenize_from_space [OF True])
      from "1.IH" [rule_format, of A' "Suc p"] "1.prems" Cons l r show ?thesis by simp
    next
      case nsp: False
      have ne: "A \<noteq> []" using Cons by simp
      then obtain ty g where m: "master_pattern_match A = Some (ty, g)"
        using master_pattern_match_total by fastforce
      have nw: "ty \<noteq> WHITESPACE"
        using master_pattern_match_whitespace [of A g] m nsp Cons by auto
      have nm: "ty \<noteq> MISMATCH"
        using "1.prems" m ne by (auto simp: tokenize_from.simps [of p A])
      have g: "g \<noteq> []" using m by (rule master_pattern_match_nonempty)
      have lg: "length g \<le> length A" using m by (rule master_pattern_match_length)
      let ?A' = "drop (length g) A"
      let ?p' = "p + length g"
      have m': "master_pattern_match (A @ CHR '' '' # X) = Some (ty, g)"
        using m nw nm not_word_blank not_command_char_blank
        by (rule master_pattern_match_tail) simp
      have dr: "drop (length g) (A @ CHR '' '' # X) = ?A' @ CHR '' '' # X"
        using lg by simp
      have l: "tokenize_from p A =
                 (Token ty (token_value ty g) # fst (tokenize_from ?p' ?A'),
                  snd (tokenize_from ?p' ?A'))"
        using m ne nw nm by (simp add: tokenize_from.simps [of p A] case_prod_unfold)
      have r: "tokenize_from p (A @ CHR '' '' # X) =
                 (Token ty (token_value ty g) # fst (tokenize_from ?p' (?A' @ CHR '' '' # X)),
                  snd (tokenize_from ?p' (?A' @ CHR '' '' # X)))"
        using m' nw nm dr
        by (simp add: tokenize_from.simps [of p "A @ CHR '' '' # X"] case_prod_unfold)
      have ok: "snd (tokenize_from ?p' ?A') = None" using "1.prems" l by simp
      have shorter: "length ?A' < length A" using g ne by (cases A) auto
      from "1.IH" [rule_format, OF shorter ok]
      have ih: "fst (tokenize_from ?p' (?A' @ CHR '' '' # X))
                  = butlast (fst (tokenize_from ?p' ?A')) @ fst (tokenize_from 0 X)"
        "(snd (tokenize_from ?p' (?A' @ CHR '' '' # X)) = None) = (snd (tokenize_from 0 X) = None)"
        by simp_all
      from tokenize_from_ends [OF ok] have "fst (tokenize_from ?p' ?A') \<noteq> []" by simp
      with l r ih show ?thesis by simp
    qed
  qed
qed

lemma master_pattern_match_separators:
  "master_pattern_match (CHR ''&'' # CHR ''&'' # s) = Some (AND, ''&&'')"
  "master_pattern_match (CHR ''|'' # CHR ''|'' # s) = Some (OR, ''||'')"
  "master_pattern_match (CHR '';'' # s) = Some (SEMI, '';'')"
  by (simp_all add: master_pattern_match_unfold re_plus_def re_literal_def is_space_def)

lemma tokenize_from_separator:
  assumes "master_pattern_match (sep @ CHR '' '' # B) = Some (ty, sep)"
    and "ty \<noteq> WHITESPACE" and "ty \<noteq> MISMATCH" and "ty \<noteq> STRING"
  shows "fst (tokenize_from p (sep @ CHR '' '' # B)) = Token ty sep # fst (tokenize_from 0 B)"
    and "(snd (tokenize_from p (sep @ CHR '' '' # B)) = None) = (snd (tokenize_from 0 B) = None)"
proof -
  have "tokenize_from (p + length sep) (CHR '' '' # B) = tokenize_from (Suc (p + length sep)) B"
    by (rule tokenize_from_space [OF is_space_blank])
  with tokenize_from_shift [of "Suc (p + length sep)" B 0] assms
  show "fst (tokenize_from p (sep @ CHR '' '' # B)) = Token ty sep # fst (tokenize_from 0 B)"
    and "(snd (tokenize_from p (sep @ CHR '' '' # B)) = None) = (snd (tokenize_from 0 B) = None)"
    by (simp_all add: tokenize_from.simps [of p "sep @ CHR '' '' # B"] token_value_def
          case_prod_unfold)
qed

lemma tokenize_joined:
  assumes A: "snd (tokenize A) = None" and B: "snd (tokenize B) = None"
    and sep: "master_pattern_match (sep @ CHR '' '' # B) = Some (ty, sep)"
      "ty \<noteq> WHITESPACE" "ty \<noteq> MISMATCH" "ty \<noteq> STRING"
  shows "tokenize (A @ CHR '' '' # sep @ CHR '' '' # B)
           = (butlast (fst (tokenize A)) @ Token ty sep # fst (tokenize B), None)"
proof -
  from tokenize_from_tail [of 0 A "sep @ CHR '' '' # B"] A
  have 1: "fst (tokenize_from 0 (A @ CHR '' '' # sep @ CHR '' '' # B))
             = butlast (fst (tokenize_from 0 A)) @ fst (tokenize_from 0 (sep @ CHR '' '' # B))"
    and 2: "(snd (tokenize_from 0 (A @ CHR '' '' # sep @ CHR '' '' # B)) = None)
             = (snd (tokenize_from 0 (sep @ CHR '' '' # B)) = None)"
    by (simp_all add: tokenize_def)
  from 1 2 tokenize_from_separator [OF sep, of 0] B show ?thesis
    by (simp add: tokenize_def prod_eq_iff)
qed

subsection \<open>A character that only the catch-all matches\<close>







section \<open>Properties of the parser\<close>

subsection \<open>Command names\<close>

lemma named_commands_simps [simp]:
  "named_commands [] = True"
  "named_commands (t # ts) = ((ttype t = COMMAND \<longrightarrow> tvalue t \<noteq> []) \<and> named_commands ts)"
  by (simp_all add: named_commands_def)

lemma tokenize_from_named_commands:
  "named_commands (fst (tokenize_from pos s))"
proof (induction pos s rule: tokenize_from.induct)
  case (1 pos s)
  show ?case
  proof (cases "s = []")
    case True
    then show ?thesis by (simp add: tokenize_from.simps)
  next
    case ne: False
    then obtain ty g where m: "master_pattern_match s = Some (ty, g)"
      using master_pattern_match_total by fastforce
    show ?thesis
    proof (cases "ty = WHITESPACE")
      case True
      with "1.IH"(1) [OF ne m refl True] ne m show ?thesis
        by (simp add: tokenize_from.simps [of pos s])
    next
      case nw: False
      show ?thesis
      proof (cases "ty = MISMATCH")
        case True
        with ne m show ?thesis by (simp add: tokenize_from.simps [of pos s])
      next
        case nm: False
        from m have "ty = COMMAND \<longrightarrow> token_value ty g \<noteq> []"
          using master_pattern_match_command by auto
        with "1.IH"(2) [OF ne m refl nw nm] ne m nw nm show ?thesis
          by (auto simp: tokenize_from.simps [of pos s] split: prod.splits)
      qed
    qed
  qed
qed

lemma input_named_next_token: "input_named self \<Longrightarrow> input_named (next_token self)"
  by (auto simp: input_named_def next_token_def split: list.splits)

lemma input_named_parse_arguments:
  "input_named self \<Longrightarrow> input_named (fst (parse_arguments self args kwargs))"
proof (induction self args kwargs rule: parse_arguments.induct)
  case (1 self args kwargs)
  note n1 = input_named_next_token [OF "1.prems"]
  note n2 = input_named_next_token [OF n1]
  show ?case
    using "1.IH" "1.prems" n1 n2
    by (subst parse_arguments.simps) auto
qed

lemma parse_chain_result:
  assumes "parse_chain self = Inr (self', c)"
  shows "ttype (current self) = COMMAND"
    and "chain_type c = Some ''COMMAND''"
    and "chain_cmd c = Some (tvalue (current self))"
    and "self' = fst (parse_arguments (next_token self) [] [])"
  using assms
  by (auto simp: parse_chain_def parse_command_def Let_def
           split: if_splits prod.splits sum.splits)

lemma parse_loop_tagged_and_named:
  "input_named self \<Longrightarrow> \<forall>c \<in> set acc. tagged_and_named c \<Longrightarrow>
   parse_loop self acc = Inr chs \<Longrightarrow> \<forall>c \<in> set chs. tagged_and_named c"
proof (induction self acc rule: parse_loop.induct)
  case (1 self acc)
  show ?case
  proof (cases "ttype (current self) = EOF")
    case True
    with "1.prems" show ?thesis by (simp add: parse_loop.simps [of self acc])
  next
    case ne: False
    show ?thesis
    proof (cases "parse_chain self")
      case (Inl e)
      with ne "1.prems" show ?thesis by (simp add: parse_loop.simps [of self acc])
    next
      case (Inr r)
      obtain self' c where r: "r = (self', c)" by (cases r)
      note pc = Inr [unfolded r]
      note res = parse_chain_result [OF pc]
      from "1.prems"(1) res(1) have "tvalue (current self) \<noteq> []"
        by (simp add: input_named_def)
      with res have c: "tagged_and_named c" by (simp add: tagged_and_named_def)
      have self': "input_named self'"
        unfolding res(4)
        by (intro input_named_parse_arguments input_named_next_token "1.prems"(1))
      from c "1.prems"(2) have acc': "\<forall>c \<in> set (acc @ [c]). tagged_and_named c" by simp
      show ?thesis
      proof (cases "ttype (current self') \<in> {SEMI, AND, OR}")
        case True
        with "1.prems"(3) ne pc
        have "parse_loop (next_token self') (acc @ [c]) = Inr chs"
          by (simp add: parse_loop.simps [of self acc])
        from "1.IH"(1) [OF ne pc refl True input_named_next_token [OF self'] acc' this]
        show ?thesis .
      next
        case False
        with "1.prems"(3) ne pc
        have "parse_loop self' (acc @ [c]) = Inr chs"
          by (simp add: parse_loop.simps [of self acc])
        from "1.IH"(2) [OF ne pc refl False self' acc' this]
        show ?thesis .
      qed
    qed
  qed
qed

lemma input_named_Parser_init: "named_commands toks \<Longrightarrow> input_named (Parser_init toks)"
  by (auto simp: input_named_def Parser_init_def next_token_def split: list.splits)

text \<open>
  C9. Every Command-kind token that the tokenizer yields has a literal of at least one
  character (its pattern is \<^verbatim>\<open>[a-zA-Z0-9_-]+\<close>); and for every sequence of such tokens
  on which \<^verbatim>\<open>parse\<close> succeeds, every chain of the result is tagged "COMMAND" and has a
  command name that is not empty.
\<close>

theorem chains_tagged_and_named:
  "(tokenize text = (toks, err) \<longrightarrow> named_commands toks)
   \<and> (named_commands toks' \<and> parse (Parser_init toks') = Inr chs \<longrightarrow>
        (\<forall>c \<in> set chs. chain_type c = Some ''COMMAND''
                       \<and> (\<exists>n. chain_cmd c = Some n \<and> n \<noteq> [])))"
proof (intro conjI impI)
  assume "tokenize text = (toks, err)"
  with tokenize_from_named_commands [of 0 "text"] show "named_commands toks"
    by (simp add: tokenize_def)
next
  assume a: "named_commands toks' \<and> parse (Parser_init toks') = Inr chs"
  then have "\<forall>c \<in> set chs. tagged_and_named c"
    using parse_loop_tagged_and_named [of "Parser_init toks'" "[]" chs]
    by (simp add: parse_def input_named_Parser_init)
  then show "\<forall>c \<in> set chs. chain_type c = Some ''COMMAND''
                       \<and> (\<exists>n. chain_cmd c = Some n \<and> n \<noteq> [])"
    by (simp add: tagged_and_named_def)
qed

theorem chains_tagged_and_named_witness:
  "tokenize ''echo hi ; ls'' =
     ([Token COMMAND ''echo'', Token COMMAND ''hi'', Token SEMI '';'', Token COMMAND ''ls'',
       Token EOF ''''], None)
   \<and> named_commands [Token COMMAND ''echo'', Token COMMAND ''hi'', Token SEMI '';'',
        Token COMMAND ''ls'', Token EOF '''']
   \<and> parse (Parser_init [Token COMMAND ''echo'', Token COMMAND ''hi'', Token SEMI '';'',
        Token COMMAND ''ls'', Token EOF '''']) =
       Inr [\<lparr>chain_type = Some ''COMMAND'', chain_cmd = Some ''echo'',
              chain_args = Some [''hi''], chain_kwargs = Some []\<rparr>,
            \<lparr>chain_type = Some ''COMMAND'', chain_cmd = Some ''ls'',
              chain_args = Some [], chain_kwargs = Some []\<rparr>]
   \<and> list_all tagged_and_named
         [\<lparr>chain_type = Some ''COMMAND'', chain_cmd = Some ''echo'',
            chain_args = Some [''hi''], chain_kwargs = Some []\<rparr>,
          \<lparr>chain_type = Some ''COMMAND'', chain_cmd = Some ''ls'',
            chain_args = Some [], chain_kwargs = Some []\<rparr>]"
proof -
  have t: "tokenize ''echo hi ; ls'' =
     ([Token COMMAND ''echo'', Token COMMAND ''hi'', Token SEMI '';'', Token COMMAND ''ls'',
       Token EOF ''''], None)"
    by code_simp
  have p: "parse (Parser_init [Token COMMAND ''echo'', Token COMMAND ''hi'', Token SEMI '';'',
        Token COMMAND ''ls'', Token EOF '''']) =
       Inr [\<lparr>chain_type = Some ''COMMAND'', chain_cmd = Some ''echo'',
              chain_args = Some [''hi''], chain_kwargs = Some []\<rparr>,
            \<lparr>chain_type = Some ''COMMAND'', chain_cmd = Some ''ls'',
              chain_args = Some [], chain_kwargs = Some []\<rparr>]"
    by code_simp
  from chains_tagged_and_named [of "''echo hi ; ls''" _ None _
      "[\<lparr>chain_type = Some ''COMMAND'', chain_cmd = Some ''echo'',
              chain_args = Some [''hi''], chain_kwargs = Some []\<rparr>,
            \<lparr>chain_type = Some ''COMMAND'', chain_cmd = Some ''ls'',
              chain_args = Some [], chain_kwargs = Some []\<rparr>]"] t p
  have "named_commands [Token COMMAND ''echo'', Token COMMAND ''hi'', Token SEMI '';'',
          Token COMMAND ''ls'', Token EOF '''']
        \<and> (\<forall>c \<in> set [\<lparr>chain_type = Some ''COMMAND'', chain_cmd = Some ''echo'',
                         chain_args = Some [''hi''], chain_kwargs = Some []\<rparr>,
                       \<lparr>chain_type = Some ''COMMAND'', chain_cmd = Some ''ls'',
                         chain_args = Some [], chain_kwargs = Some []\<rparr>].
              chain_type c = Some ''COMMAND'' \<and> (\<exists>n. chain_cmd c = Some n \<and> n \<noteq> []))"
    by blast
  then have "named_commands [Token COMMAND ''echo'', Token COMMAND ''hi'', Token SEMI '';'',
          Token COMMAND ''ls'', Token EOF '''']
        \<and> list_all tagged_and_named
         [\<lparr>chain_type = Some ''COMMAND'', chain_cmd = Some ''echo'',
            chain_args = Some [''hi''], chain_kwargs = Some []\<rparr>,
          \<lparr>chain_type = Some ''COMMAND'', chain_cmd = Some ''ls'',
            chain_args = Some [], chain_kwargs = Some []\<rparr>]"
    by (simp add: tagged_and_named_def)
  with t p show ?thesis by blast
qed

subsection \<open>Parsing one command up to a separator\<close>

lemma Parser_init_Cons: "Parser_init (t # ts) = \<lparr>tokens = ts, current = t\<rparr>"
  by (simp add: Parser_init_def next_token_def)

lemma next_token_Parser_init:
  "ts \<noteq> [] \<Longrightarrow> next_token (Parser_init (t # ts)) = Parser_init ts"
  by (cases ts) (simp_all add: Parser_init_Cons next_token_def)

lemma parse_arguments_stop:
  "ttype stop \<in> {AND, OR, SEMI, EOF} \<Longrightarrow>
   parse_arguments (Parser_init (stop # rest)) a k = (Parser_init (stop # rest), a, k)"
  by (subst parse_arguments.simps) (simp add: Parser_init_Cons)

lemma parse_arguments_step:
  assumes "is_argument x"
  shows "parse_arguments (Parser_init (x # y # ts)) a k =
     (if ttype x = FLAG then
        (if CHR ''='' \<in> set (flag_name x) then
           parse_arguments (Parser_init (y # ts)) a (set_key_value (flag_name x) k)
         else if ttype y \<in> {COMMAND, STRING} then
           parse_arguments (next_token (Parser_init (y # ts))) a
             (AList.update (flag_name x) (Str (tvalue y)) k)
         else parse_arguments (Parser_init (y # ts)) a (AList.update (flag_name x) PyTrue k))
      else if CHR ''='' \<in> set (tvalue x) then
        parse_arguments (Parser_init (y # ts)) a (set_key_value (tvalue x) k)
      else parse_arguments (Parser_init (y # ts)) (a @ [tvalue x]) k)"
proof -
  have n: "next_token (Parser_init (x # y # ts)) = Parser_init (y # ts)"
    by (simp add: next_token_Parser_init)
  have c: "current (Parser_init (x # y # ts)) = x" "current (Parser_init (y # ts)) = y"
    by (simp_all add: Parser_init_Cons)
  from assms have t: "ttype x = FLAG \<or> ttype x = COMMAND \<or> ttype x = STRING"
    by (auto simp: is_argument_def)
  from t show ?thesis
    by (subst parse_arguments.simps) (auto simp: n c)
qed

lemma parse_arguments_until:
  assumes stop: "ttype stop \<in> {AND, OR, SEMI, EOF}"
  shows "list_all is_argument xs \<Longrightarrow>
         parse_arguments (Parser_init (xs @ stop # rest)) a k
           = (Parser_init (stop # rest),
              snd (parse_arguments (Parser_init (xs @ [Token EOF []])) a k))"
proof (induction xs arbitrary: a k rule: length_induct)
  case (1 xs)
  have IH: "parse_arguments (Parser_init (ys @ stop # rest)) a' k'
              = (Parser_init (stop # rest),
                 snd (parse_arguments (Parser_init (ys @ [Token EOF []])) a' k'))"
    if "length ys < length xs" "list_all is_argument ys" for ys a' k'
    using "1.IH" that by blast
  have stop': "ttype stop \<notin> {COMMAND, STRING}" using stop by auto
  show ?case
  proof (cases xs)
    case Nil
    with stop show ?thesis by (simp add: parse_arguments_stop)
  next
    case (Cons x xs')
    with "1.prems" have x: "is_argument x" and xs': "list_all is_argument xs'" by simp_all
    note tail = IH [of xs', OF _ xs']
    show ?thesis
    proof (cases xs')
      case Nil
      with Cons x stop stop' show ?thesis
        by (simp add: parse_arguments_step parse_arguments_stop)
    next
      case ys: (Cons y ys)
      with xs' have "list_all is_argument ys" by simp
      note tail2 = IH [of ys, OF _ this]
      have n1: "next_token (Parser_init (y # ys @ stop # rest)) = Parser_init (ys @ stop # rest)"
        and n2: "next_token (Parser_init (y # ys @ [Token EOF []])) = Parser_init (ys @ [Token EOF []])"
        by (simp_all add: next_token_Parser_init)
      have l: "xs' @ stop # rest = y # ys @ stop # rest"
        "xs' @ [Token EOF []] = y # ys @ [Token EOF []]"
        using ys by simp_all
      have s1: "parse_arguments (Parser_init (y # ys @ stop # rest)) a' k'
              = (Parser_init (stop # rest),
                 snd (parse_arguments (Parser_init (y # ys @ [Token EOF []])) a' k'))" for a' k'
        using tail [of a' k'] Cons ys by (simp add: l)
      have s2: "parse_arguments (Parser_init (ys @ stop # rest)) a' k'
              = (Parser_init (stop # rest),
                 snd (parse_arguments (Parser_init (ys @ [Token EOF []])) a' k'))" for a' k'
        using tail2 [of a' k'] Cons ys by simp
      have "parse_arguments (Parser_init (x # y # ys @ stop # rest)) a k
              = (Parser_init (stop # rest),
                 snd (parse_arguments (Parser_init (x # y # ys @ [Token EOF []])) a k))"
        by (simp add: parse_arguments_step [OF x] n1 n2 s1 s2)
      with Cons ys show ?thesis by simp
    qed
  qed
qed

lemma parse_chain_until:
  assumes "ttype t = COMMAND" and "list_all is_argument xs"
  shows "\<exists>c. \<forall>stop rest. ttype stop \<in> {AND, OR, SEMI, EOF} \<longrightarrow>
           parse_chain (Parser_init (t # xs @ stop # rest)) = Inr (Parser_init (stop # rest), c)"
proof -
  obtain a k where ak: "snd (parse_arguments (Parser_init (xs @ [Token EOF []])) [] []) = (a, k)"
    by (cases "snd (parse_arguments (Parser_init (xs @ [Token EOF []])) [] [])")
  let ?c = "\<lparr>chain_type = Some ''COMMAND'', chain_cmd = Some (tvalue t),
             chain_args = Some a, chain_kwargs = Some k\<rparr>"
  have "parse_chain (Parser_init (t # xs @ stop # rest)) = Inr (Parser_init (stop # rest), ?c)"
    if "ttype stop \<in> {AND, OR, SEMI, EOF}" for stop rest
  proof -
    have n: "next_token (Parser_init (t # xs @ stop # rest)) = Parser_init (xs @ stop # rest)"
      by (simp add: next_token_Parser_init)
    have c: "current (Parser_init (t # xs @ stop # rest)) = t"
      by (simp add: Parser_init_Cons)
    from parse_arguments_until [OF that assms(2), of rest "[]" "[]"] ak assms(1)
    show ?thesis by (simp add: parse_chain_def parse_command_def n c)
  qed
  then show ?thesis by blast
qed

lemma parse_loop_last:
  assumes "ttype t = COMMAND"
    and "parse_chain (Parser_init (t # xs @ [Token EOF []])) = Inr (Parser_init [Token EOF []], c)"
  shows "parse_loop (Parser_init (t # xs @ [Token EOF []])) acc = Inr (acc @ [c])"
proof -
  have e: "parse_loop (Parser_init [Token EOF []]) (acc @ [c]) = Inr (acc @ [c])"
    by (subst parse_loop.simps) (simp add: Parser_init_Cons)
  have c: "current (Parser_init (t # xs @ [Token EOF []])) = t"
    "current (Parser_init [Token EOF []]) = Token EOF []"
    by (simp_all add: Parser_init_Cons)
  from assms e show ?thesis
    by (subst parse_loop.simps) (simp add: c)
qed

lemma parse_loop_separator:
  assumes "ttype t = COMMAND" and "ttype sep \<in> {AND, OR, SEMI}" and "rest \<noteq> []"
    and "parse_chain (Parser_init (t # xs @ sep # rest)) = Inr (Parser_init (sep # rest), c)"
  shows "parse_loop (Parser_init (t # xs @ sep # rest)) acc = parse_loop (Parser_init rest) (acc @ [c])"
proof -
  have c: "current (Parser_init (t # xs @ sep # rest)) = t"
    "current (Parser_init (sep # rest)) = sep"
    by (simp_all add: Parser_init_Cons)
  have n: "next_token (Parser_init (sep # rest)) = Parser_init rest"
    using assms(3) by (simp add: next_token_Parser_init)
  from assms(1,2,4) show ?thesis
    by (subst parse_loop.simps) (auto simp: c n)
qed

subsection \<open>The tokens of a command text\<close>

lemma command_text_tokens:
  assumes "command_text A"
  shows "\<exists>t xs. tokenize A = (t # xs @ [Token EOF []], None)
           \<and> ttype t = COMMAND \<and> list_all is_argument xs"
proof -
  from assms obtain t ts where tk: "tokenize A = (t # ts, None)"
    and t: "ttype t = COMMAND" and args: "list_all is_argument (butlast ts)"
    by (auto simp: command_text_def split: prod.splits option.splits list.splits)
  from tk have "snd (tokenize_from 0 A) = None" "fst (tokenize_from 0 A) = t # ts"
    by (simp_all add: tokenize_def)
  with tokenize_from_ends [of 0 A] have l: "last (t # ts) = Token EOF []" by simp
  with t have "ts \<noteq> []" by auto
  with l have "ts = butlast ts @ [Token EOF []]"
    by (metis append_butlast_last_id last_ConsR)
  with tk t args show ?thesis by metis
qed

subsection \<open>Separators\<close>

lemma parse_two_commands:
  assumes A: "tokenize A = (t # xs @ [Token EOF []], None)" "ttype t = COMMAND"
      "list_all is_argument xs"
    and B: "tokenize B = (u # ys @ [Token EOF []], None)" "ttype u = COMMAND"
      "list_all is_argument ys"
  shows "\<exists>a b. tokenize_and_parse A = Inr [a] \<and> tokenize_and_parse B = Inr [b]
           \<and> (\<forall>ty sep. ty \<in> {AND, OR, SEMI}
                 \<and> master_pattern_match (sep @ CHR '' '' # B) = Some (ty, sep)
               \<longrightarrow> tokenize_and_parse (A @ CHR '' '' # sep @ CHR '' '' # B) = Inr [a, b])"
proof -
  from parse_chain_until [OF A(2,3)] obtain a where
    a: "\<And>stop rest. ttype stop \<in> {AND, OR, SEMI, EOF} \<Longrightarrow>
          parse_chain (Parser_init (t # xs @ stop # rest)) = Inr (Parser_init (stop # rest), a)"
    by blast
  from parse_chain_until [OF B(2,3)] obtain b where
    b: "\<And>stop rest. ttype stop \<in> {AND, OR, SEMI, EOF} \<Longrightarrow>
          parse_chain (Parser_init (u # ys @ stop # rest)) = Inr (Parser_init (stop # rest), b)"
    by blast
  have la: "parse_loop (Parser_init (t # xs @ [Token EOF []])) acc = Inr (acc @ [a])" for acc
    by (rule parse_loop_last [OF A(2)]) (simp add: a)
  have lb: "parse_loop (Parser_init (u # ys @ [Token EOF []])) acc = Inr (acc @ [b])" for acc
    by (rule parse_loop_last [OF B(2)]) (simp add: b)
  have pa: "tokenize_and_parse A = Inr [a]"
    by (simp add: tokenize_and_parse_def A(1) parse_def la)
  have pb: "tokenize_and_parse B = Inr [b]"
    by (simp add: tokenize_and_parse_def B(1) parse_def lb)
  have pab: "tokenize_and_parse (A @ CHR '' '' # sep @ CHR '' '' # B) = Inr [a, b]"
    if ty: "ty \<in> {AND, OR, SEMI}"
      and m: "master_pattern_match (sep @ CHR '' '' # B) = Some (ty, sep)" for ty sep
  proof -
    from ty have nt: "ty \<noteq> WHITESPACE" "ty \<noteq> MISMATCH" "ty \<noteq> STRING" by auto
    from A(1) B(1) have "snd (tokenize A) = None" "snd (tokenize B) = None" by simp_all
    from tokenize_joined [OF this m nt] A(1) B(1)
    have tk: "tokenize (A @ CHR '' '' # sep @ CHR '' '' # B)
                = (t # xs @ Token ty sep # u # ys @ [Token EOF []], None)"
      by simp
    have st: "ttype (Token ty sep) \<in> {AND, OR, SEMI, EOF}" using ty by auto
    have "parse_loop (Parser_init (t # xs @ Token ty sep # u # ys @ [Token EOF []])) []
            = parse_loop (Parser_init (u # ys @ [Token EOF []])) ([] @ [a])"
      by (rule parse_loop_separator [OF A(2)]) (use ty in \<open>simp_all add: a [OF st]\<close>)
    then show ?thesis
      by (simp add: tokenize_and_parse_def tk parse_def lb)
  qed
  from pa pb pab show ?thesis by blast
qed

text \<open>
  C7. For command texts \<open>A\<close> and \<open>B\<close>, the lines \<^verbatim>\<open>A && B\<close>, \<^verbatim>\<open>A ; B\<close> and \<^verbatim>\<open>A || B\<close>
  are all accepted and all parse to the same list of two chains: the chain that \<open>A\<close>
  alone parses to, then the chain that \<open>B\<close> alone parses to. The separator is read and
  dropped: nothing of it is kept on either chain, and its kind changes nothing.
\<close>

theorem separators_interchangeable:
  assumes "command_text A" and "command_text B"
  shows "\<exists>a b. tokenize_and_parse A = Inr [a] \<and> tokenize_and_parse B = Inr [b]
           \<and> tokenize_and_parse (A @ '' && '' @ B) = Inr [a, b]
           \<and> tokenize_and_parse (A @ '' ; '' @ B) = Inr [a, b]
           \<and> tokenize_and_parse (A @ '' || '' @ B) = Inr [a, b]"
proof -
  from command_text_tokens [OF assms(1)] obtain t xs where
    A: "tokenize A = (t # xs @ [Token EOF []], None)" "ttype t = COMMAND"
      "list_all is_argument xs"
    by blast
  from command_text_tokens [OF assms(2)] obtain u ys where
    B: "tokenize B = (u # ys @ [Token EOF []], None)" "ttype u = COMMAND"
      "list_all is_argument ys"
    by blast
  from parse_two_commands [OF A B] obtain a b where
    pa: "tokenize_and_parse A = Inr [a]" and pb: "tokenize_and_parse B = Inr [b]"
    and pab: "\<And>ty sep. ty \<in> {AND, OR, SEMI} \<Longrightarrow>
                master_pattern_match (sep @ CHR '' '' # B) = Some (ty, sep) \<Longrightarrow>
                tokenize_and_parse (A @ CHR '' '' # sep @ CHR '' '' # B) = Inr [a, b]"
    by blast
  have "tokenize_and_parse (A @ CHR '' '' # ''&&'' @ CHR '' '' # B) = Inr [a, b]"
    by (rule pab [of AND]) (simp_all add: master_pattern_match_separators)
  moreover have "tokenize_and_parse (A @ CHR '' '' # '';'' @ CHR '' '' # B) = Inr [a, b]"
    by (rule pab [of SEMI]) (simp_all add: master_pattern_match_separators)
  moreover have "tokenize_and_parse (A @ CHR '' '' # ''||'' @ CHR '' '' # B) = Inr [a, b]"
    by (rule pab [of OR]) (simp_all add: master_pattern_match_separators)
  ultimately show ?thesis using pa pb by (intro exI [of _ a] exI [of _ b]) simp
qed

theorem separators_interchangeable_witness:
  "command_text ''echo hi --v'' \<and> command_text ''ls -l''
   \<and> (\<exists>a b. tokenize_and_parse ''echo hi --v'' = Inr [a]
          \<and> tokenize_and_parse ''ls -l'' = Inr [b]
          \<and> tokenize_and_parse (''echo hi --v'' @ '' && '' @ ''ls -l'') = Inr [a, b]
          \<and> tokenize_and_parse (''echo hi --v'' @ '' ; '' @ ''ls -l'') = Inr [a, b]
          \<and> tokenize_and_parse (''echo hi --v'' @ '' || '' @ ''ls -l'') = Inr [a, b])"
proof -
  have A: "command_text ''echo hi --v''" by code_simp
  have B: "command_text ''ls -l''" by code_simp
  from separators_interchangeable [OF A B] A B show ?thesis by blast
qed

section \<open>Properties of the executor\<close>

lemmas example_defs =
  fun_disabled_def example_executor_def example_modules_def bare_def
  Echo_def HeadsOrTails_def Failing_def Unfinished_def Silent_def Interrupted_def Prank_def
  variadic_def BaseCommand_execute_def

lemmas executor_defs =
  execute_command_def load_command_def resolve_alias_def fun_gated_def invoke_def caught_def
  get_args_def get_kwargs_def str_of_def lower_def lower_char_def

text \<open>
  When the module of the resolved name cannot be imported, \<^verbatim>\<open>execute_command\<close> raises
  \<^verbatim>\<open>ModuleNotFoundError("Command not found: ...")\<close>.
\<close>

lemma missing_module_raises:
  assumes "chain_cmd c = Some n"
    and "import_module env (commands_module self @ ''.'' @ lower (the (resolve_alias self (Some n))))
           = ImportFails (ModuleNotFoundError m)"
  shows "fst (execute_command env self c)
           = Inl (ModuleNotFoundError (''Command not found: '' @ the (resolve_alias self (Some n))))"
  using assms
  by (auto simp: execute_command_def load_command_def resolve_alias_def str_of_def Let_def
           split: option.splits)

text \<open>
  C3. The lookup also fails when the module is there and holds no subclass of
  \<^verbatim>\<open>BaseCommand\<close>: \<^verbatim>\<open>CommandClass\<close> stays \<^verbatim>\<open>None\<close>, nothing is raised in the first
  \<^verbatim>\<open>try\<close> block, and the \<^verbatim>\<open>TypeError\<close> of \<^verbatim>\<open>CommandClass()\<close> is caught in the second:
  \<^verbatim>\<open>execute_command\<close> returns \<^verbatim>\<open>False\<close> where its docstring promises
  \<^verbatim>\<open>ModuleNotFoundError\<close> ("if the command module or class cannot be found").
  Here at the name \<^verbatim>\<open>__pycache__\<close>, which the tokenizer accepts as a command.
\<close>

theorem classless_module_returns_false:
  "execute_command fun_disabled example_executor (bare ''__pycache__'') =
     (Inr False,
      [Log ''executor'' ERROR
         (ErrorExecuting (Some ''__pycache__'') (TypeError ''NoneType object is not callable'')),
       Print (ErrorRunning (Some ''__pycache__'') (TypeError ''NoneType object is not callable''))])"
  by (simp add: example_defs executor_defs Let_def)

text \<open>
  C4, as stated, fails: an exception raised while the plugin runs leaves the executor
  when it is not an \<^verbatim>\<open>Exception\<close>, as \<^verbatim>\<open>KeyboardInterrupt\<close> here.
\<close>

theorem interrupt_escapes_executor:
  "execute_command fun_disabled example_executor (bare ''interrupted'') =
     (Inl KeyboardInterrupt, [Execute ''Interrupted'' [] []])"
  by (simp add: example_defs executor_defs Let_def)

lemma execute_command_invoke:
  assumes "load_command env self (resolve_alias self (chain_cmd c)) = Inr (Some cls)"
    and "\<not> fun_gated env (Some cls)"
  shows "execute_command env self c =
           invoke (resolve_alias self (chain_cmd c)) (Some cls) (get_args c) (get_kwargs c)"
  using assms by (simp add: execute_command_def Let_def)

text \<open>
  C4, amended. When a plugin is found and not feature-gated: \<^verbatim>\<open>execute_command\<close> returns
  \<^verbatim>\<open>True\<close> exactly when the plugin's \<^verbatim>\<open>execute\<close> returns a value equal to 0, for an
  integer \<open>n\<close> exactly when \<open>n = 0\<close>; any other integer yields \<^verbatim>\<open>False\<close> with one
  message, logged once and printed once; an exception of the plugin that derives from
  \<^verbatim>\<open>Exception\<close> is caught and becomes \<^verbatim>\<open>False\<close>, logged and printed once; an exception
  that does not (\<^verbatim>\<open>KeyboardInterrupt\<close>, \<^verbatim>\<open>SystemExit\<close>) leaves the executor; and in each
  case \<^verbatim>\<open>execute\<close> is called once, with no retry.
\<close>

theorem execute_command_outcome:
  assumes "load_command env self (resolve_alias self (chain_cmd c)) = Inr (Some cls)"
    and "\<not> fun_gated env (Some cls)"
  shows "(fst (execute_command env self c) = Inr True)
           = (\<exists>v. execute cls (get_args c) (get_kwargs c) = Returned v \<and> \<not> ne_zero v)
       \<and> (\<forall>n. execute cls (get_args c) (get_kwargs c) = Returned (PyInt n) \<longrightarrow>
              fst (execute_command env self c) = Inr (n = 0))
       \<and> (\<forall>n. execute cls (get_args c) (get_kwargs c) = Returned (PyInt n) \<and> n \<noteq> 0 \<longrightarrow>
              snd (execute_command env self c) =
                [Execute (class_name cls) (get_args c) (get_kwargs c),
                 Log ''executor'' ERROR (FailedExitCode (resolve_alias self (chain_cmd c)) (PyInt n)),
                 Print (FailedExitCode (resolve_alias self (chain_cmd c)) (PyInt n))])
       \<and> (\<forall>e. execute cls (get_args c) (get_kwargs c) = Raised e \<and> is_Exception e \<longrightarrow>
              execute_command env self c =
                (Inr False,
                 [Execute (class_name cls) (get_args c) (get_kwargs c),
                  Log ''executor'' ERROR (ErrorExecuting (resolve_alias self (chain_cmd c)) e),
                  Print (ErrorRunning (resolve_alias self (chain_cmd c)) e)]))
       \<and> (\<forall>e. execute cls (get_args c) (get_kwargs c) = Raised e \<and> \<not> is_Exception e \<longrightarrow>
              execute_command env self c =
                (Inl e, [Execute (class_name cls) (get_args c) (get_kwargs c)]))
       \<and> length (filter is_Execute (snd (execute_command env self c))) = 1"
  unfolding execute_command_invoke [OF assms]
  by (cases "execute cls (get_args c) (get_kwargs c)") (auto simp: invoke_def caught_def)

theorem execute_command_outcome_witness:
  "load_command fun_disabled example_executor (resolve_alias example_executor (chain_cmd (bare ''failing'')))
     = Inr (Some Failing)
   \<and> \<not> fun_gated fun_disabled (Some Failing)
   \<and> execute Failing (get_args (bare ''failing'')) (get_kwargs (bare ''failing'')) = Returned (PyInt 1)
   \<and> execute_command fun_disabled example_executor (bare ''failing'') =
       (Inr False,
        [Execute ''Failing'' [] [],
         Log ''executor'' ERROR (FailedExitCode (Some ''failing'') (PyInt 1)),
         Print (FailedExitCode (Some ''failing'') (PyInt 1))])
   \<and> execute Unfinished (get_args (bare ''unfinished'')) (get_kwargs (bare ''unfinished''))
       = Raised (TypeError ''execute() arguments do not bind'')
   \<and> execute_command fun_disabled example_executor (bare ''unfinished'') =
       (Inr False,
        [Execute ''Unfinished'' [] [],
         Log ''executor'' ERROR (ErrorExecuting (Some ''unfinished'') (TypeError ''execute() arguments do not bind'')),
         Print (ErrorRunning (Some ''unfinished'') (TypeError ''execute() arguments do not bind''))])"
proof -
  have found: "load_command fun_disabled example_executor
                 (resolve_alias example_executor (chain_cmd (bare ''failing''))) = Inr (Some Failing)"
    by (simp add: example_defs executor_defs Let_def)
  have ungated: "\<not> fun_gated fun_disabled (Some Failing)"
    by (simp add: example_defs executor_defs Let_def)
  have found': "load_command fun_disabled example_executor
                 (resolve_alias example_executor (chain_cmd (bare ''unfinished''))) = Inr (Some Unfinished)"
    by (simp add: example_defs executor_defs Let_def)
  have ungated': "\<not> fun_gated fun_disabled (Some Unfinished)"
    by (simp add: example_defs executor_defs Let_def)
  have ret: "execute Failing (get_args (bare ''failing'')) (get_kwargs (bare ''failing'')) = Returned (PyInt 1)"
    by (simp add: example_defs executor_defs Let_def)
  have exc: "execute Unfinished (get_args (bare ''unfinished'')) (get_kwargs (bare ''unfinished''))
       = Raised (TypeError ''execute() arguments do not bind'')"
    by (simp add: example_defs executor_defs Let_def)
  from execute_command_outcome [OF found ungated] ret
  have r1: "fst (execute_command fun_disabled example_executor (bare ''failing'')) = Inr False"
    and r2: "snd (execute_command fun_disabled example_executor (bare ''failing'')) =
        [Execute (class_name Failing) (get_args (bare ''failing'')) (get_kwargs (bare ''failing'')),
         Log ''executor'' ERROR (FailedExitCode (resolve_alias example_executor (chain_cmd (bare ''failing''))) (PyInt 1)),
         Print (FailedExitCode (resolve_alias example_executor (chain_cmd (bare ''failing''))) (PyInt 1))]"
    by auto
  from execute_command_outcome [OF found' ungated'] exc
  have r3: "execute_command fun_disabled example_executor (bare ''unfinished'') =
        (Inr False,
         [Execute (class_name Unfinished) (get_args (bare ''unfinished'')) (get_kwargs (bare ''unfinished'')),
          Log ''executor'' ERROR (ErrorExecuting (resolve_alias example_executor (chain_cmd (bare ''unfinished''))) (TypeError ''execute() arguments do not bind'')),
          Print (ErrorRunning (resolve_alias example_executor (chain_cmd (bare ''unfinished''))) (TypeError ''execute() arguments do not bind''))])"
    by auto
  have r12: "execute_command fun_disabled example_executor (bare ''failing'') =
       (Inr False,
        [Execute ''Failing'' [] [],
         Log ''executor'' ERROR (FailedExitCode (Some ''failing'') (PyInt 1)),
         Print (FailedExitCode (Some ''failing'') (PyInt 1))])"
    using r1 r2 by (simp add: prod_eq_iff example_defs get_args_def get_kwargs_def resolve_alias_def)
  have r3': "execute_command fun_disabled example_executor (bare ''unfinished'') =
       (Inr False,
        [Execute ''Unfinished'' [] [],
         Log ''executor'' ERROR (ErrorExecuting (Some ''unfinished'') (TypeError ''execute() arguments do not bind'')),
         Print (ErrorRunning (Some ''unfinished'') (TypeError ''execute() arguments do not bind''))])"
    using r3 by (simp add: example_defs get_args_def get_kwargs_def resolve_alias_def)
  from found ungated ret r12 exc r3' show ?thesis by blast
qed

text \<open>
  C6. For a plugin whose class has \<^verbatim>\<open>fun = True\<close>, when the \<^verbatim>\<open>fun_commands\<close> flag of
  the configuration is false, \<^verbatim>\<open>execute_command\<close> returns \<^verbatim>\<open>True\<close>, prints the notice and
  logs the warning, and the plugin's \<^verbatim>\<open>execute\<close> is not called.
\<close>

theorem fun_command_skipped:
  assumes "load_command env self (resolve_alias self (chain_cmd c)) = Inr (Some cls)"
    and "fun_attr cls = Some True"
    and "fun_commands env = Some False"
  shows "execute_command env self c =
           (Inr True, [Print FunDisabledNotice, Log ''executor'' WARNING FunDisabledWarning])
       \<and> filter is_Execute (snd (execute_command env self c)) = []"
  using assms by (simp add: execute_command_def fun_gated_def Let_def)

theorem fun_command_skipped_witness:
  "load_command fun_disabled example_executor
     (resolve_alias example_executor (chain_cmd (bare ''headsortails''))) = Inr (Some HeadsOrTails)
   \<and> fun_attr HeadsOrTails = Some True
   \<and> fun_commands fun_disabled = Some False
   \<and> execute_command fun_disabled example_executor (bare ''headsortails'') =
       (Inr True, [Print FunDisabledNotice, Log ''executor'' WARNING FunDisabledWarning])"
proof -
  have 1: "load_command fun_disabled example_executor
     (resolve_alias example_executor (chain_cmd (bare ''headsortails''))) = Inr (Some HeadsOrTails)"
    by (simp add: example_defs executor_defs Let_def)
  have 2: "fun_attr HeadsOrTails = Some True" by (simp add: HeadsOrTails_def)
  have 3: "fun_commands fun_disabled = Some False" by (simp add: fun_disabled_def)
  from fun_command_skipped [OF 1 2 3] 1 2 3 show ?thesis by blast
qed

text \<open>
  C10, as stated, fails: for a gated fun plugin \<^verbatim>\<open>execute_command\<close> returns \<^verbatim>\<open>True\<close>
  though \<^verbatim>\<open>execute\<close> does not run, here for a plugin whose \<^verbatim>\<open>execute\<close> returns 1.
\<close>

theorem gated_plugin_true_without_execute:
  "execute Prank [] [] = Returned (PyInt 1)
   \<and> ne_zero (PyInt 1)
   \<and> execute_command fun_disabled example_executor (bare ''prank'') =
       (Inr True, [Print FunDisabledNotice, Log ''executor'' WARNING FunDisabledWarning])"
  by (simp add: example_defs executor_defs Let_def)

text \<open>
  C10, amended. For a plugin that is found and not feature-gated, \<^verbatim>\<open>execute_command\<close>
  returns \<^verbatim>\<open>True\<close> only when \<^verbatim>\<open>execute\<close> completes and returns a value equal to the
  integer 0; for every other value returned, \<^verbatim>\<open>None\<close> and the non-integers among them,
  it returns \<^verbatim>\<open>False\<close> with the failure message logged and printed.
\<close>

theorem true_only_on_zero:
  assumes "load_command env self (resolve_alias self (chain_cmd c)) = Inr (Some cls)"
    and "\<not> fun_gated env (Some cls)"
  shows "(fst (execute_command env self c) = Inr True)
           = (\<exists>v. execute cls (get_args c) (get_kwargs c) = Returned v \<and> \<not> ne_zero v)
       \<and> (\<forall>v. execute cls (get_args c) (get_kwargs c) = Returned v \<and> ne_zero v \<longrightarrow>
              execute_command env self c =
                (Inr False,
                 [Execute (class_name cls) (get_args c) (get_kwargs c),
                  Log ''executor'' ERROR (FailedExitCode (resolve_alias self (chain_cmd c)) v),
                  Print (FailedExitCode (resolve_alias self (chain_cmd c)) v)]))
       \<and> ne_zero PyNone \<and> (\<forall>s. ne_zero (PyStr s)) \<and> (\<forall>n. ne_zero (PyInt n) = (n \<noteq> 0))"
  unfolding execute_command_invoke [OF assms]
  by (cases "execute cls (get_args c) (get_kwargs c)") (auto simp: invoke_def caught_def)

theorem true_only_on_zero_witness:
  "load_command fun_disabled example_executor
     (resolve_alias example_executor (chain_cmd (bare ''silent''))) = Inr (Some Silent)
   \<and> \<not> fun_gated fun_disabled (Some Silent)
   \<and> execute Silent (get_args (bare ''silent'')) (get_kwargs (bare ''silent'')) = Returned PyNone
   \<and> execute_command fun_disabled example_executor (bare ''silent'') =
       (Inr False,
        [Execute ''Silent'' [] [],
         Log ''executor'' ERROR (FailedExitCode (Some ''silent'') PyNone),
         Print (FailedExitCode (Some ''silent'') PyNone)])"
proof -
  have 1: "load_command fun_disabled example_executor
     (resolve_alias example_executor (chain_cmd (bare ''silent''))) = Inr (Some Silent)"
    by (simp add: example_defs executor_defs Let_def)
  have 2: "\<not> fun_gated fun_disabled (Some Silent)"
    by (simp add: example_defs executor_defs Let_def)
  have 3: "execute Silent (get_args (bare ''silent'')) (get_kwargs (bare ''silent'')) = Returned PyNone"
    by (simp add: example_defs executor_defs Let_def)
  from true_only_on_zero [OF 1 2] 3
  have "execute_command fun_disabled example_executor (bare ''silent'') =
          (Inr False,
           [Execute (class_name Silent) (get_args (bare ''silent'')) (get_kwargs (bare ''silent'')),
            Log ''executor'' ERROR (FailedExitCode (resolve_alias example_executor (chain_cmd (bare ''silent''))) PyNone),
            Print (FailedExitCode (resolve_alias example_executor (chain_cmd (bare ''silent''))) PyNone)])"
    by simp
  then have 4: "execute_command fun_disabled example_executor (bare ''silent'') =
       (Inr False,
        [Execute ''Silent'' [] [],
         Log ''executor'' ERROR (FailedExitCode (Some ''silent'') PyNone),
         Print (FailedExitCode (Some ''silent'') PyNone)])"
    by (simp add: example_defs get_args_def get_kwargs_def resolve_alias_def)
  from 1 2 3 4 show ?thesis by blast
qed

lemma run_loop_snoc:
  "run_loop env self (chs @ [c]) st0 =
     (case run_loop env self chs st0 of
        (Inl e, evs) \<Rightarrow> (Inl e, evs)
      | (Inr st, evs) \<Rightarrow> (case run_loop env self [c] st of (r, evs') \<Rightarrow> (r, evs @ evs')))"
  by (induction chs arbitrary: st0) (auto simp: Let_def split: prod.splits sum.splits)

text \<open>
  C5, as stated, fails: a chain whose command is not found raises, the exception leaves
  \<^verbatim>\<open>run\<close>, which returns no boolean, and the chains after it do not run, here
  \<^verbatim>\<open>echo\<close>, which would have succeeded.
\<close>

theorem run_stops_at_missing_command:
  "run fun_disabled example_executor [bare ''nope'', bare ''echo''] =
     (Inl (ModuleNotFoundError ''Command not found: nope''),
      [Print (ExnText (ModuleNotFoundError ''commands.nope'')),
       Log ''executor'' ERROR (ErrorLoading (Some ''nope'') (ModuleNotFoundError ''commands.nope''))])
   \<and> execute_command fun_disabled example_executor (bare ''echo'') =
       (Inr True, [Execute ''Echo'' [] []])"
  by (simp add: run_def get_type_def example_defs executor_defs Let_def)

text \<open>
  C5, amended. \<^verbatim>\<open>run\<close> of the empty sequence returns \<^verbatim>\<open>True\<close>. As long as no call of
  \<^verbatim>\<open>execute_command\<close> raises, the chains are handled in encounter order: after the chains
  \<open>chs\<close>, whatever their status was, a "COMMAND"-tagged chain \<open>c\<close> is executed and its
  status is the status of the run, and a chain with another tag is skipped with the
  diagnostic and leaves the status as it was. Once a call has raised, the exception is
  the result of \<^verbatim>\<open>run\<close> and no later chain is executed.
\<close>

theorem run_reports_last_status:
  "run env self [] = (Inr True, [])
   \<and> (\<forall>st evs. run env self chs = (Inr st, evs) \<and> get_type c = ''COMMAND'' \<longrightarrow>
         run env self (chs @ [c]) =
           (fst (execute_command env self c), evs @ snd (execute_command env self c)))
   \<and> (\<forall>st evs. run env self chs = (Inr st, evs) \<and> get_type c \<noteq> ''COMMAND'' \<longrightarrow>
         run env self (chs @ [c]) = (Inr st, evs @ [Print (UnsupportedChainType (get_type c))]))
   \<and> (\<forall>e evs. run env self chs = (Inl e, evs) \<longrightarrow> run env self (chs @ [c]) = (Inl e, evs))"
  unfolding run_def run_loop_snoc
  by (auto simp: Let_def split: prod.splits sum.splits)

theorem run_reports_last_status_witness:
  "run fun_disabled example_executor [bare ''failing''] =
     (Inr False,
      [Execute ''Failing'' [] [],
       Log ''executor'' ERROR (FailedExitCode (Some ''failing'') (PyInt 1)),
       Print (FailedExitCode (Some ''failing'') (PyInt 1))])
   \<and> get_type (bare ''echo'') = ''COMMAND''
   \<and> run fun_disabled example_executor ([bare ''failing''] @ [bare ''echo'']) =
       (Inr True,
        [Execute ''Failing'' [] [],
         Log ''executor'' ERROR (FailedExitCode (Some ''failing'') (PyInt 1)),
         Print (FailedExitCode (Some ''failing'') (PyInt 1)),
         Execute ''Echo'' [] []])"
proof -
  have r1: "run fun_disabled example_executor [bare ''failing''] =
     (Inr False,
      [Execute ''Failing'' [] [],
       Log ''executor'' ERROR (FailedExitCode (Some ''failing'') (PyInt 1)),
       Print (FailedExitCode (Some ''failing'') (PyInt 1))])"
    by (simp add: run_def get_type_def example_defs executor_defs Let_def)
  have r2: "get_type (bare ''echo'') = ''COMMAND''"
    by (simp add: get_type_def bare_def)
  have r3: "execute_command fun_disabled example_executor (bare ''echo'') =
       (Inr True, [Execute ''Echo'' [] []])"
    by (simp add: example_defs executor_defs Let_def)
  from run_reports_last_status [of fun_disabled example_executor "[bare ''failing'']" "bare ''echo''"]
    r1 r2
  have "run fun_disabled example_executor ([bare ''failing''] @ [bare ''echo'']) =
          (fst (execute_command fun_disabled example_executor (bare ''echo'')),
           [Execute ''Failing'' [] [],
            Log ''executor'' ERROR (FailedExitCode (Some ''failing'') (PyInt 1)),
            Print (FailedExitCode (Some ''failing'') (PyInt 1))]
           @ snd (execute_command fun_disabled example_executor (bare ''echo'')))"
    by blast
  with r1 r2 r3 show ?thesis by simp
qed

end
